theory Spec2Isabelle
  imports Complex_Main
begin

section \<open>Room layout planner: rooms, placed objects and the object manager\<close>

text \<open>
  A shallow embedding of the planner's core (\<^verbatim>\<open>js/config.js\<close>, \<^verbatim>\<open>js/utils.js\<close>,
  \<^verbatim>\<open>js/models/Room.js\<close>, \<^verbatim>\<open>js/models/PlacedObject.js\<close>,
  \<^verbatim>\<open>js/services/ObjectManager.js\<close>, \<^verbatim>\<open>js/services/PersistenceService.js\<close> and the
  loader of \<^verbatim>\<open>js/main.js\<close>). Numbers are IEEE doubles with their rounding, their
  infinities and \<^verbatim>\<open>NaN\<close>; a property that the code reads from a parsed JSON text or from
  a caller's object holds any scalar value.
\<close>

subsection \<open>JavaScript numbers\<close>

text \<open>
  A JavaScript number is an IEEE 754 double: \<^verbatim>\<open>NaN\<close>, an infinity, or a finite value
  \<open>Fin x\<close>. The two zeros are one value here; they differ in the source only in the sign
  of a quotient by zero, which the modelled code never forms.
\<close>

datatype jsnum = NaN | PosInf | NegInf | Fin real

text \<open>
  Rounding to the nearest double, ties to the even significand. \<open>ulp_exponent x\<close> is the
  exponent of the unit in the last place of the doubles around \<open>x\<close>: 53 significant
  bits, and no less than the exponent of the subnormal numbers. A result of magnitude
  \<open>2 ^ 1024\<close> or more overflows to an infinity.
\<close>

definition ulp_exponent :: "real \<Rightarrow> int" where
  "ulp_exponent x = max (\<lfloor>log 2 \<bar>x\<bar>\<rfloor> - 52) (- 1074)"

definition round_half_even :: "real \<Rightarrow> int" where
  "round_half_even y =
     (let f = \<lfloor>y\<rfloor>; d = y - of_int f
      in if d < 1 / 2 then f else if 1 / 2 < d then f + 1 else if even f then f else f + 1)"

definition rnd_fin :: "real \<Rightarrow> real" where
  "rnd_fin x =
     of_int (round_half_even (x / 2 powr of_int (ulp_exponent x))) * 2 powr of_int (ulp_exponent x)"

definition rnd :: "real \<Rightarrow> jsnum" where
  "rnd x =
     (let y = rnd_fin x
      in if 2 ^ 1024 \<le> y then PosInf else if y \<le> - (2 ^ 1024) then NegInf else Fin y)"

text \<open>The arithmetic operators \<^verbatim>\<open>-x\<close>, \<^verbatim>\<open>+\<close>, \<^verbatim>\<open>-\<close>, \<^verbatim>\<open>*\<close>, \<^verbatim>\<open>/\<close> and \<^verbatim>\<open>%\<close> on numbers.\<close>

fun js_neg :: "jsnum \<Rightarrow> jsnum" where
  "js_neg NaN = NaN"
| "js_neg PosInf = NegInf"
| "js_neg NegInf = PosInf"
| "js_neg (Fin a) = Fin (- a)"

fun fadd :: "jsnum \<Rightarrow> jsnum \<Rightarrow> jsnum" where
  "fadd (Fin a) (Fin b) = rnd (a + b)"
| "fadd NaN b = NaN"
| "fadd a NaN = NaN"
| "fadd PosInf NegInf = NaN"
| "fadd NegInf PosInf = NaN"
| "fadd PosInf b = PosInf"
| "fadd NegInf b = NegInf"
| "fadd (Fin a) b = b"

definition fsub :: "jsnum \<Rightarrow> jsnum \<Rightarrow> jsnum" where
  "fsub a b = fadd a (js_neg b)"

text \<open>The sign of a number that is not \<^verbatim>\<open>NaN\<close>: \<open>True\<close> for a negative one.\<close>

fun negative :: "jsnum \<Rightarrow> bool" where
  "negative (Fin a) = (a < 0)"
| "negative NegInf = True"
| "negative a = False"

fun fmul :: "jsnum \<Rightarrow> jsnum \<Rightarrow> jsnum" where
  "fmul (Fin a) (Fin b) = rnd (a * b)"
| "fmul NaN b = NaN"
| "fmul a NaN = NaN"
| "fmul a b =
     (if a = Fin 0 \<or> b = Fin 0 then NaN
      else if negative a = negative b then PosInf else NegInf)"

fun fdiv :: "jsnum \<Rightarrow> jsnum \<Rightarrow> jsnum" where
  "fdiv (Fin a) (Fin b) =
     (if b = 0 then (if a = 0 then NaN else if 0 < a then PosInf else NegInf)
      else rnd (a / b))"
| "fdiv NaN b = NaN"
| "fdiv a NaN = NaN"
| "fdiv (Fin a) b = Fin 0"
| "fdiv a (Fin b) = (if negative a = (b < 0) then PosInf else NegInf)"
| "fdiv a b = NaN"

text \<open>
  \<^verbatim>\<open>a % b\<close>: the remainder has the sign of the dividend, the quotient is truncated
  towards zero, and the result is exact.
\<close>

definition js_trunc :: "real \<Rightarrow> int" where
  "js_trunc q = (if q < 0 then \<lceil>q\<rceil> else \<lfloor>q\<rfloor>)"

fun js_rem :: "jsnum \<Rightarrow> jsnum \<Rightarrow> jsnum" where
  "js_rem (Fin a) (Fin b) = (if b = 0 then NaN else Fin (a - b * of_int (js_trunc (a / b))))"
| "js_rem NaN b = NaN"
| "js_rem a NaN = NaN"
| "js_rem (Fin a) b = Fin a"
| "js_rem a b = NaN"

text \<open>
  The comparisons \<^verbatim>\<open><=\<close> and \<^verbatim>\<open>>\<close> (false when an operand is \<^verbatim>\<open>NaN\<close>), \<^verbatim>\<open>isNaN\<close>,
  \<^verbatim>\<open>Math.abs\<close>, \<^verbatim>\<open>Math.max\<close> and \<^verbatim>\<open>Math.min\<close> (\<^verbatim>\<open>NaN\<close> when an operand is).
\<close>

fun js_le :: "jsnum \<Rightarrow> jsnum \<Rightarrow> bool" where
  "js_le (Fin a) (Fin b) = (a \<le> b)"
| "js_le NaN b = False"
| "js_le a NaN = False"
| "js_le NegInf b = True"
| "js_le a PosInf = True"
| "js_le a b = False"

definition js_gt :: "jsnum \<Rightarrow> jsnum \<Rightarrow> bool" where
  "js_gt a b = (a \<noteq> NaN \<and> b \<noteq> NaN \<and> \<not> js_le a b)"

definition js_ge :: "jsnum \<Rightarrow> jsnum \<Rightarrow> bool" where
  "js_ge a b = js_le b a"

definition isNaN :: "jsnum \<Rightarrow> bool" where
  "isNaN a = (a = NaN)"

fun Math_abs :: "jsnum \<Rightarrow> jsnum" where
  "Math_abs (Fin a) = Fin \<bar>a\<bar>"
| "Math_abs NaN = NaN"
| "Math_abs a = PosInf"

definition Math_max :: "jsnum \<Rightarrow> jsnum \<Rightarrow> jsnum" where
  "Math_max a b = (if a = NaN \<or> b = NaN then NaN else if js_le a b then b else a)"

definition Math_min :: "jsnum \<Rightarrow> jsnum \<Rightarrow> jsnum" where
  "Math_min a b = (if a = NaN \<or> b = NaN then NaN else if js_le a b then a else b)"

subsection \<open>JavaScript values\<close>

text \<open>
  The scalar values that a property can hold. A string is given by the number that it
  converts to (\<open>StrNum (Fin 12)\<close> for \<^verbatim>\<open>'12'\<close>, \<open>StrNum NaN\<close> for \<^verbatim>\<open>'abc'\<close>): the code
  uses these properties in comparisons with a number, in \<^verbatim>\<open>isNaN\<close>, in \<^verbatim>\<open>Number\<close>, in
  products and in differences only, and all of them see the string through that number.
  Objects and arrays as property values are not represented.
\<close>

datatype jsval = Undefined | Null | Boolean bool | Number jsnum | StrNum jsnum

fun ToNumber :: "jsval \<Rightarrow> jsnum" where
  "ToNumber Undefined = NaN"
| "ToNumber Null = Fin 0"
| "ToNumber (Boolean b) = Fin (if b then 1 else 0)"
| "ToNumber (Number n) = n"
| "ToNumber (StrNum n) = n"

text \<open>
  What \<^verbatim>\<open>JSON.parse(JSON.stringify(v))\<close> gives for a property value: a number that is not
  finite is written as \<^verbatim>\<open>null\<close>; a finite number is written with the digits that read
  back as the same double; a property that is \<^verbatim>\<open>undefined\<close> is left out and so is
  \<^verbatim>\<open>undefined\<close> again.
\<close>

fun through_JSON :: "jsval \<Rightarrow> jsval" where
  "through_JSON (Number (Fin a)) = Number (Fin a)"
| "through_JSON (Number n) = Null"
| "through_JSON v = v"

text \<open>Truthiness of a string-valued property: missing and the empty string are falsy.\<close>

fun truthy :: "string option \<Rightarrow> bool" where
  "truthy None = False"
| "truthy (Some s) = (s \<noteq> [])"

text \<open>\<^verbatim>\<open>v || d\<close> on a string-valued property.\<close>

fun or_else :: "string option \<Rightarrow> string \<Rightarrow> string" where
  "or_else None d = d"
| "or_else (Some s) d = (if s = [] then d else s)"

text \<open>\<^verbatim>\<open>Number(v) || 0\<close>: \<^verbatim>\<open>NaN\<close> and 0 are falsy.\<close>

definition number_or_zero :: "jsval \<Rightarrow> jsnum" where
  "number_or_zero v = (if ToNumber v = NaN \<or> ToNumber v = Fin 0 then Fin 0 else ToNumber v)"

text \<open>Decimal rendering of a natural number, as a template literal does.\<close>

fun show_nat :: "nat \<Rightarrow> string" where
  "show_nat n =
     (if n < 10 then [''0123456789'' ! n]
      else show_nat (n div 10) @ [''0123456789'' ! (n mod 10)])"

declare show_nat.simps [simp del]

text \<open>
  \<^verbatim>\<open>Math.cos\<close> and \<^verbatim>\<open>Math.sin\<close> are approximated by the engine that runs the program;
  the language fixes their values at zero and at the numbers that are not finite only. An
  \<open>engine\<close> holds the two functions that the engine at hand computes on the other
  doubles.
\<close>

record engine =
  cos_of :: "real \<Rightarrow> real"
  sin_of :: "real \<Rightarrow> real"

fun Math_cos :: "engine \<Rightarrow> jsnum \<Rightarrow> jsnum" where
  "Math_cos M (Fin a) = (if a = 0 then Fin 1 else Fin (cos_of M a))"
| "Math_cos M a = NaN"

fun Math_sin :: "engine \<Rightarrow> jsnum \<Rightarrow> jsnum" where
  "Math_sin M (Fin a) = (if a = 0 then Fin 0 else Fin (sin_of M a))"
| "Math_sin M a = NaN"

text \<open>\<^verbatim>\<open>Math.PI\<close>: the double nearest to \<open>\<pi>\<close>.\<close>

definition Math_PI :: jsnum where
  "Math_PI = Fin (884279719003555 / 2 ^ 48)"

subsection \<open>Configuration (\<^verbatim>\<open>js/config.js\<close>)\<close>

definition CANVAS_MAX_WIDTH :: jsnum where
  "CANVAS_MAX_WIDTH = Fin 1000"

definition CANVAS_MAX_HEIGHT :: jsnum where
  "CANVAS_MAX_HEIGHT = Fin 700"

definition ROTATION_INCREMENT :: jsnum where
  "ROTATION_INCREMENT = Fin 10"

definition CUSTOM_OBJECT_DEFAULTS_color :: string where
  "CUSTOM_OBJECT_DEFAULTS_color = ''#888888''"

subsection \<open>Geometry helpers (\<^verbatim>\<open>js/utils.js\<close>)\<close>

definition clamp :: "jsnum \<Rightarrow> jsnum \<Rightarrow> jsnum \<Rightarrow> jsnum" where
  "clamp v lo hi = Math_max lo (Math_min v hi)"

definition degreesToRadians :: "jsnum \<Rightarrow> jsnum" where
  "degreesToRadians degrees = fmul degrees (fdiv Math_PI (Fin 180))"

definition isPointInRotatedRectangle ::
  "engine \<Rightarrow> jsnum \<Rightarrow> jsnum \<Rightarrow> jsnum \<Rightarrow> jsnum \<Rightarrow> jsnum \<Rightarrow> jsnum \<Rightarrow> jsnum \<Rightarrow> bool" where
  "isPointInRotatedRectangle M px py rx ry rWidth rHeight rAngleDegrees =
     (let angleRad = js_neg (degreesToRadians rAngleDegrees);
          centerX = fadd rx (fdiv rWidth (Fin 2));
          centerY = fadd ry (fdiv rHeight (Fin 2));
          translatedX = fsub px centerX;
          translatedY = fsub py centerY;
          rotatedX = fsub (fmul translatedX (Math_cos M angleRad))
                          (fmul translatedY (Math_sin M angleRad));
          rotatedY = fadd (fmul translatedX (Math_sin M angleRad))
                          (fmul translatedY (Math_cos M angleRad));
          finalX = fadd rotatedX centerX;
          finalY = fadd rotatedY centerY
      in js_ge finalX rx \<and> js_le finalX (fadd rx rWidth) \<and>
         js_ge finalY ry \<and> js_le finalY (fadd ry rHeight))"

subsection \<open>The room (\<^verbatim>\<open>js/models/Room.js\<close>)\<close>

text \<open>
  The constructor is \<open>Room_new\<close>, \<open>Inl\<close> being the thrown error. The field
  \<^verbatim>\<open>length\<close> is \<open>length_units\<close>, and the room's \<^verbatim>\<open>getPixelDimensions\<close> is
  \<open>room_getPixelDimensions\<close>. \<open>calculateScale\<close> takes the two fields it reads.
\<close>

record Room =
  width :: jsnum
  length_units :: jsnum
  scale :: jsnum
  canvasWidth :: jsnum
  canvasHeight :: jsnum

datatype error = Error string

definition calculateScale :: "jsnum \<Rightarrow> jsnum \<Rightarrow> jsnum" where
  "calculateScale w l =
     (let scaleX = fdiv CANVAS_MAX_WIDTH w; scaleY = fdiv CANVAS_MAX_HEIGHT l
      in Math_min scaleX scaleY)"

definition Room_new :: "jsnum \<Rightarrow> jsnum \<Rightarrow> error + Room" where
  "Room_new w l =
     (if js_le w (Fin 0) \<or> js_le l (Fin 0) then Inl (Error ''Room dimensions must be positive.'')
      else let sc = calculateScale w l
           in Inr \<lparr>width = w, length_units = l, scale = sc,
                   canvasWidth = fmul w sc, canvasHeight = fmul l sc\<rparr>)"

definition toPixels :: "Room \<Rightarrow> jsnum \<Rightarrow> jsnum" where
  "toPixels r dimensionInUnits = fmul dimensionInUnits (scale r)"

definition toUnits :: "Room \<Rightarrow> jsnum \<Rightarrow> jsnum" where
  "toUnits r pixels = (if scale r = Fin 0 then Fin 0 else fdiv pixels (scale r))"

definition room_getPixelDimensions :: "Room \<Rightarrow> jsnum \<times> jsnum" where
  "room_getPixelDimensions r = (canvasWidth r, canvasHeight r)"

subsection \<open>Placed objects (\<^verbatim>\<open>js/models/PlacedObject.js\<close>)\<close>

text \<open>
  \<open>uniqueId\<close> holds the number \<open>n\<close> of the source's string \<^verbatim>\<open>obj-n\<close>. The fields
  \<^verbatim>\<open>name\<close>, \<^verbatim>\<open>color\<close>, \<^verbatim>\<open>label\<close>, \<^verbatim>\<open>x\<close>, \<^verbatim>\<open>y\<close> and \<^verbatim>\<open>scale\<close> carry the prefix
  \<open>obj_\<close>, and the method \<^verbatim>\<open>rotate\<close> is \<open>rotate_obj\<close>. The constructor stores the size
  and the position as it gets them, so these fields hold any value; the other numeric
  fields are results of arithmetic and hold numbers. The text fields are strings.
\<close>

record PlacedObject =
  uniqueId :: nat
  typeId :: string
  obj_name :: string
  widthUnits :: jsval
  lengthUnits :: jsval
  obj_color :: string
  obj_label :: string
  obj_x :: jsval
  obj_y :: jsval
  rotation :: jsnum
  isSelected :: bool
  obj_scale :: jsnum
  widthPixels :: jsnum
  lengthPixels :: jsnum

text \<open>The definition object handed to \<open>addObject\<close> and to the constructor.\<close>

record objectDefinition =
  def_id :: "string option"
  def_name :: "string option"
  def_width :: jsval
  def_length :: jsval
  def_color :: "string option"
  def_label :: "string option"

definition updateScale :: "PlacedObject \<Rightarrow> jsnum \<Rightarrow> PlacedObject" where
  "updateScale ob newScale =
     ob\<lparr>obj_scale := newScale,
        widthPixels := fmul (ToNumber (widthUnits ob)) newScale,
        lengthPixels := fmul (ToNumber (lengthUnits ob)) newScale\<rparr>"

text \<open>
  \<^verbatim>\<open>new PlacedObject(objectDefinition, x, y, scale)\<close> with the module counter
  \<^verbatim>\<open>objectCounter\<close> at \<open>counter\<close>; the caller stores \<open>counter + 1\<close> back.
\<close>

definition PlacedObject_new ::
  "nat \<Rightarrow> objectDefinition \<Rightarrow> jsval \<Rightarrow> jsval \<Rightarrow> jsnum \<Rightarrow> PlacedObject" where
  "PlacedObject_new counter d x y sc =
     updateScale
       \<lparr>uniqueId = counter,
        typeId = or_else (def_id d) ''custom'',
        obj_name = or_else (def_name d) (''Object obj-'' @ show_nat counter),
        widthUnits = def_width d,
        lengthUnits = def_length d,
        obj_color = or_else (def_color d) ''#cccccc'',
        obj_label = or_else (def_label d) '''',
        obj_x = x,
        obj_y = y,
        rotation = Fin 0,
        isSelected = False,
        obj_scale = NaN,
        widthPixels = NaN,
        lengthPixels = NaN\<rparr> sc"

definition rotate_obj :: "PlacedObject \<Rightarrow> PlacedObject" where
  "rotate_obj ob = ob\<lparr>rotation := js_rem (fadd (rotation ob) ROTATION_INCREMENT) (Fin 360)\<rparr>"

definition setPosition :: "PlacedObject \<Rightarrow> jsval \<Rightarrow> jsval \<Rightarrow> PlacedObject" where
  "setPosition ob x y = ob\<lparr>obj_x := x, obj_y := y\<rparr>"

definition getDrawingCoords :: "PlacedObject \<Rightarrow> jsnum \<times> jsnum" where
  "getDrawingCoords ob =
     (fsub (ToNumber (obj_x ob)) (fdiv (widthPixels ob) (Fin 2)),
      fsub (ToNumber (obj_y ob)) (fdiv (lengthPixels ob) (Fin 2)))"

definition getPixelDimensions :: "PlacedObject \<Rightarrow> jsnum \<times> jsnum" where
  "getPixelDimensions ob = (widthPixels ob, lengthPixels ob)"

subsection \<open>The object manager (\<^verbatim>\<open>js/services/ObjectManager.js\<close>)\<close>

text \<open>
  Objects are shared by reference: the manager's array and its \<^verbatim>\<open>selectedObject\<close> hold
  references, and so may a caller. A reference is an address in \<open>heap\<close>. Every
  \<^verbatim>\<open>new PlacedObject\<close> takes the address \<open>objectCounter\<close>, the value of the module
  counter of \<^verbatim>\<open>PlacedObject.js\<close>, which it then increments; \<open>heap\<close>,
  \<open>objectCounter\<close> and \<open>math\<close>, the engine's \<^verbatim>\<open>Math\<close>, are the program's, the other
  fields the manager's. \<open>onChangeCallback\<close> tells whether a callback is registered (the
  source's field is \<^verbatim>\<open>null\<close> otherwise) and \<open>calls\<close> counts its invocations. The method
  \<^verbatim>\<open>_notifyChange\<close> is \<open>notifyChange\<close>, and the constructor, which throws without a
  room, is \<open>ObjectManager_new\<close>. A manager always has its room, so the test
  \<^verbatim>\<open>!this.room\<close> of \<open>moveSelectedObject\<close> never holds.
\<close>

type_synonym ref = nat

record state =
  math :: engine
  heap :: "ref \<Rightarrow> PlacedObject"
  objectCounter :: nat
  room :: Room
  placedObjects :: "ref list"
  selectedObject :: "ref option"
  onChangeCallback :: bool
  calls :: nat

definition ObjectManager_new ::
  "engine \<Rightarrow> (ref \<Rightarrow> PlacedObject) \<Rightarrow> nat \<Rightarrow> Room option \<Rightarrow> error + state" where
  "ObjectManager_new M h counter rm =
     (case rm of
        None \<Rightarrow> Inl (Error ''ObjectManager requires a Room instance.'')
      | Some r \<Rightarrow>
          Inr \<lparr>math = M, heap = h, objectCounter = counter, room = r, placedObjects = [],
               selectedObject = None, onChangeCallback = False, calls = 0\<rparr>)"

definition setOnChangeCallback :: "state \<Rightarrow> state" where
  "setOnChangeCallback s = s\<lparr>onChangeCallback := True\<rparr>"

definition notifyChange :: "state \<Rightarrow> state" where
  "notifyChange s = (if onChangeCallback s then s\<lparr>calls := calls s + 1\<rparr> else s)"

definition updateObjectScales :: "state \<Rightarrow> jsnum \<Rightarrow> state" where
  "updateObjectScales s newScale =
     notifyChange
       (s\<lparr>heap := fold (\<lambda>r h. h(r := updateScale (h r) newScale)) (placedObjects s) (heap s)\<rparr>)"

definition selectObject :: "state \<Rightarrow> ref option \<Rightarrow> state" where
  "selectObject s objectToSelect =
     (let s1 = (case selectedObject s of
                  Some p \<Rightarrow> s\<lparr>heap := (heap s)(p := (heap s p)\<lparr>isSelected := False\<rparr>)\<rparr>
                | None \<Rightarrow> s);
          s2 = s1\<lparr>selectedObject := objectToSelect\<rparr>;
          s3 = (case selectedObject s2 of
                  Some q \<Rightarrow> s2\<lparr>heap := (heap s2)(q := (heap s2 q)\<lparr>isSelected := True\<rparr>)\<rparr>
                | None \<Rightarrow> s2)
      in notifyChange s3)"

text \<open>
  \<open>addObject\<close> returns the new state and the new object, \<open>None\<close> for \<^verbatim>\<open>null\<close>. Its
  argument is \<open>None\<close> for a \<^verbatim>\<open>null\<close> definition. The comparison \<^verbatim>\<open>width > 0\<close> converts
  the width to a number; the initial position is a number.
\<close>

definition addObject ::
  "state \<Rightarrow> objectDefinition option \<Rightarrow> jsnum \<Rightarrow> jsnum \<Rightarrow> state \<times> ref option" where
  "addObject s objectDefinition initialX initialY =
     (case objectDefinition of
        None \<Rightarrow> (s, None)
      | Some d \<Rightarrow>
          if \<not> truthy (def_id d) \<or> \<not> truthy (def_name d) \<or>
             \<not> js_gt (ToNumber (def_width d)) (Fin 0) \<or>
             \<not> js_gt (ToNumber (def_length d)) (Fin 0)
          then (s, None)
          else
            let r = objectCounter s;
                newObject =
                  PlacedObject_new r d (Number initialX) (Number initialY) (scale (room s));
                s1 = s\<lparr>heap := (heap s)(r := newObject), objectCounter := r + 1\<rparr>;
                s2 = s1\<lparr>placedObjects := placedObjects s1 @ [r]\<rparr>;
                s3 = selectObject s2 (Some r);
                s4 = notifyChange s3
            in (s4, Some r))"

text \<open>The test \<open>selectObjectAt\<close> applies to one object.\<close>

definition hitTest :: "engine \<Rightarrow> PlacedObject \<Rightarrow> jsnum \<Rightarrow> jsnum \<Rightarrow> bool" where
  "hitTest M ob canvasX canvasY =
     (let (w, h) = getPixelDimensions ob;
          halfWidth = fdiv w (Fin 2);
          halfHeight = fdiv h (Fin 2)
      in isPointInRotatedRectangle M canvasX canvasY
           (fsub (ToNumber (obj_x ob)) halfWidth) (fsub (ToNumber (obj_y ob)) halfHeight)
           w h (rotation ob))"

text \<open>
  The loop \<^verbatim>\<open>for (i = length - 1; i >= 0; i--)\<close> with its \<^verbatim>\<open>break\<close>: \<open>scanFrom n\<close> visits
  the indices \<open>n - 1\<close> down to \<open>0\<close>.
\<close>

fun scanFrom ::
  "engine \<Rightarrow> (ref \<Rightarrow> PlacedObject) \<Rightarrow> ref list \<Rightarrow> jsnum \<Rightarrow> jsnum \<Rightarrow> nat \<Rightarrow> ref option" where
  "scanFrom M h objs canvasX canvasY 0 = None"
| "scanFrom M h objs canvasX canvasY (Suc i) =
     (if hitTest M (h (objs ! i)) canvasX canvasY then Some (objs ! i)
      else scanFrom M h objs canvasX canvasY i)"

definition selectObjectAt :: "state \<Rightarrow> jsnum \<Rightarrow> jsnum \<Rightarrow> state \<times> ref option" where
  "selectObjectAt s canvasX canvasY =
     (let foundObject =
            scanFrom (math s) (heap s) (placedObjects s) canvasX canvasY
              (length (placedObjects s))
      in (selectObject s foundObject, foundObject))"

definition projectedWidth :: "engine \<Rightarrow> PlacedObject \<Rightarrow> jsnum" where
  "projectedWidth M ob =
     (let angleRad = degreesToRadians (rotation ob);
          cosA = Math_cos M angleRad;
          sinA = Math_sin M angleRad
      in fadd (Math_abs (fmul (widthPixels ob) cosA)) (Math_abs (fmul (lengthPixels ob) sinA)))"

definition projectedHeight :: "engine \<Rightarrow> PlacedObject \<Rightarrow> jsnum" where
  "projectedHeight M ob =
     (let angleRad = degreesToRadians (rotation ob);
          cosA = Math_cos M angleRad;
          sinA = Math_sin M angleRad
      in fadd (Math_abs (fmul (widthPixels ob) sinA)) (Math_abs (fmul (lengthPixels ob) cosA)))"

definition moveSelectedObject :: "state \<Rightarrow> jsnum \<Rightarrow> jsnum \<Rightarrow> state" where
  "moveSelectedObject s newX newY =
     (case selectedObject s of
        None \<Rightarrow> s
      | Some sel \<Rightarrow>
          let (roomPixelWidth, roomPixelHeight) = room_getPixelDimensions (room s);
              halfProjectedWidth = fdiv (projectedWidth (math s) (heap s sel)) (Fin 2);
              halfProjectedHeight = fdiv (projectedHeight (math s) (heap s sel)) (Fin 2);
              clampedX = Math_max halfProjectedWidth
                           (Math_min newX (fsub roomPixelWidth halfProjectedWidth));
              clampedY = Math_max halfProjectedHeight
                           (Math_min newY (fsub roomPixelHeight halfProjectedHeight))
          in notifyChange
               (s\<lparr>heap := (heap s)(sel := setPosition (heap s sel)
                                               (Number clampedX) (Number clampedY))\<rparr>))"

definition rotateSelectedObject :: "state \<Rightarrow> state" where
  "rotateSelectedObject s =
     (case selectedObject s of
        None \<Rightarrow> s
      | Some sel \<Rightarrow> notifyChange (s\<lparr>heap := (heap s)(sel := rotate_obj (heap s sel))\<rparr>))"

text \<open>\<^verbatim>\<open>Array.prototype.findIndex\<close>: \<open>None\<close> is the source's \<open>-1\<close>.\<close>

fun findIndex :: "('a \<Rightarrow> bool) \<Rightarrow> 'a list \<Rightarrow> nat option" where
  "findIndex P [] = None"
| "findIndex P (x # xs) = (if P x then Some 0 else map_option Suc (findIndex P xs))"

text \<open>\<^verbatim>\<open>xs.splice(index, 1)\<close>.\<close>

definition splice1 :: "nat \<Rightarrow> 'a list \<Rightarrow> 'a list" where
  "splice1 index xs = take index xs @ drop (Suc index) xs"

definition deleteSelectedObject :: "state \<Rightarrow> state" where
  "deleteSelectedObject s =
     (case selectedObject s of
        None \<Rightarrow> s
      | Some sel \<Rightarrow>
          (case findIndex (\<lambda>r. uniqueId (heap s r) = uniqueId (heap s sel)) (placedObjects s) of
             None \<Rightarrow> s
           | Some index \<Rightarrow>
               notifyChange
                 (s\<lparr>placedObjects := splice1 index (placedObjects s),
                    selectedObject := None\<rparr>)))"

definition getSelectedObject :: "state \<Rightarrow> ref option" where
  "getSelectedObject s = selectedObject s"

definition getAllObjects :: "state \<Rightarrow> ref list" where
  "getAllObjects s = placedObjects s"

subsection \<open>Persistence (\<^verbatim>\<open>js/services/PersistenceService.js\<close>) and the loader of \<^verbatim>\<open>js/main.js\<close>\<close>

text \<open>
  One persisted object record. The loader reads every property of a record that it got
  from \<^verbatim>\<open>JSON.parse\<close>, so a property may be missing or hold a value of another type:
  \<open>None\<close> is a text property that is missing, \<open>Undefined\<close> a missing property among the
  others. A text property that is present holds a string.
\<close>

record savedObject =
  s_typeId :: "string option"
  s_name :: "string option"
  s_label :: "string option"
  s_widthUnits :: jsval
  s_lengthUnits :: jsval
  s_color :: "string option"
  s_x :: jsval
  s_y :: jsval
  s_rotation :: jsval

text \<open>
  A layout value with a \<^verbatim>\<open>room\<close> object and an \<^verbatim>\<open>objects\<close> array; an element of
  \<open>objects\<close> is \<open>None\<close> for a \<^verbatim>\<open>null\<close> entry of the array.
\<close>

record layoutData =
  room_width :: jsval
  room_length :: jsval
  objects :: "savedObject option list"

text \<open>The object literal that \<open>saveLayout\<close> builds for one object.\<close>

definition savedOf :: "PlacedObject \<Rightarrow> savedObject" where
  "savedOf ob =
     \<lparr>s_typeId = Some (typeId ob),
      s_name = Some (obj_name ob),
      s_label = Some (obj_label ob),
      s_widthUnits = widthUnits ob,
      s_lengthUnits = lengthUnits ob,
      s_color = Some (obj_color ob),
      s_x = obj_x ob,
      s_y = obj_y ob,
      s_rotation = Number (rotation ob)\<rparr>"

text \<open>
  What \<^verbatim>\<open>JSON.parse\<close> reads from the text that \<^verbatim>\<open>JSON.stringify\<close> writes for a record and
  for a layout: strings are kept, the other properties go \<open>through_JSON\<close>.
\<close>

definition record_through_JSON :: "savedObject \<Rightarrow> savedObject" where
  "record_through_JSON objData =
     objData\<lparr>s_widthUnits := through_JSON (s_widthUnits objData),
             s_lengthUnits := through_JSON (s_lengthUnits objData),
             s_x := through_JSON (s_x objData),
             s_y := through_JSON (s_y objData),
             s_rotation := through_JSON (s_rotation objData)\<rparr>"

definition layout_through_JSON :: "layoutData \<Rightarrow> layoutData" where
  "layout_through_JSON layout =
     \<lparr>room_width = through_JSON (room_width layout),
      room_length = through_JSON (room_length layout),
      objects = map (map_option record_through_JSON) (objects layout)\<rparr>"

text \<open>
  The item under \<^verbatim>\<open>STORAGE_KEY\<close>, by what \<^verbatim>\<open>JSON.parse\<close> makes of its text: there is no
  item, or the text is not JSON, or it is JSON for a value without a \<^verbatim>\<open>room\<close> object or
  without an \<^verbatim>\<open>objects\<close> array, or it is JSON for a layout value. \<open>setItem_throws\<close>
  tells whether the storage refuses to write (its quota is used up).
\<close>

datatype stored = NoItem | NotJSON | NotLayout | Layout layoutData

record localStorage =
  item :: stored
  setItem_throws :: bool

text \<open>
  \<open>saveLayout\<close> and \<open>loadLayout\<close> take \<^verbatim>\<open>window.localStorage\<close>, \<open>None\<close> in a browser
  without it, and return it with their result. \<open>Inl\<close> is the error that \<open>saveLayout\<close>
  throws from its \<^verbatim>\<open>catch\<close>.
\<close>

definition saveLayout ::
  "localStorage option \<Rightarrow> Room option \<Rightarrow> state option \<Rightarrow> error + localStorage option \<times> bool" where
  "saveLayout storage rm objectManager =
     (case storage of
        None \<Rightarrow> Inr (storage, False)
      | Some st \<Rightarrow>
          (case (rm, objectManager) of
             (Some r, Some m) \<Rightarrow>
               let objectsToSave = map (\<lambda>a. Some (savedOf (heap m a))) (getAllObjects m);
                   layout = \<lparr>room_width = Number (width r),
                             room_length = Number (length_units r),
                             objects = objectsToSave\<rparr>;
                   jsonString = Layout (layout_through_JSON layout)
               in if setItem_throws st then Inl (Error ''Failed to save layout.'')
                  else Inr (Some (st\<lparr>item := jsonString\<rparr>), True)
           | _ \<Rightarrow> Inr (storage, False)))"

definition loadLayout :: "localStorage option \<Rightarrow> localStorage option \<times> layoutData option" where
  "loadLayout storage =
     (case storage of
        None \<Rightarrow> (storage, None)
      | Some st \<Rightarrow>
          (case item st of
             NoItem \<Rightarrow> (storage, None)
           | NotJSON \<Rightarrow> (Some (st\<lparr>item := NoItem\<rparr>), None)
           | NotLayout \<Rightarrow> (Some (st\<lparr>item := NoItem\<rparr>), None)
           | Layout layout \<Rightarrow>
               (case (room_width layout, room_length layout) of
                  (Number w, Number l) \<Rightarrow> (storage, Some layout)
                | _ \<Rightarrow> (Some (st\<lparr>item := NoItem\<rparr>), None))))"

text \<open>
  \<open>loadObjectsIntoManager\<close>: the \<^verbatim>\<open>forEach\<close> is \<open>loadEach\<close>, which carries the index,
  the manager state and \<^verbatim>\<open>customObjectCounter\<close> of \<^verbatim>\<open>main.js\<close>. \<open>clock i\<close> is what
  \<^verbatim>\<open>Date.now()\<close> returns while the record at index \<open>i\<close> is loaded. Reading a property
  of a \<^verbatim>\<open>null\<close> record throws a \<^verbatim>\<open>TypeError\<close>; the \<^verbatim>\<open>try\<close> encloses the whole
  \<^verbatim>\<open>forEach\<close>, so the records after it are not visited. A record is skipped when
  \<^verbatim>\<open>widthUnits <= 0 || lengthUnits <= 0 || isNaN(x) || isNaN(y)\<close>, where the
  comparisons and \<^verbatim>\<open>isNaN\<close> convert their argument to a number. The loader is called with
  a manager and a room in place, so its first test never holds.
\<close>

fun loadEach ::
  "(nat \<Rightarrow> nat) \<Rightarrow> nat \<Rightarrow> savedObject option list \<Rightarrow> state \<times> nat \<Rightarrow> state \<times> nat" where
  "loadEach clock index [] (s, customObjectCounter) = (s, customObjectCounter)"
| "loadEach clock index (None # rest) (s, customObjectCounter) = (s, customObjectCounter)"
| "loadEach clock index (Some objData # rest) (s, customObjectCounter) =
     (if js_le (ToNumber (s_widthUnits objData)) (Fin 0) \<or>
         js_le (ToNumber (s_lengthUnits objData)) (Fin 0) \<or>
         isNaN (ToNumber (s_x objData)) \<or> isNaN (ToNumber (s_y objData))
      then loadEach clock (index + 1) rest (s, customObjectCounter)
      else
        let definitionPart =
              \<lparr>def_id = Some (or_else (s_typeId objData)
                               (''custom-'' @ show_nat (clock index) @ ''-'' @ show_nat index)),
               def_name = Some (or_else (s_name objData) ''Loaded Object''),
               def_width = s_widthUnits objData,
               def_length = s_lengthUnits objData,
               def_color = Some (or_else (s_color objData) CUSTOM_OBJECT_DEFAULTS_color),
               def_label = Some (or_else (s_label objData) [])\<rparr>;
            r = objectCounter s;
            loadedObj = PlacedObject_new r definitionPart (s_x objData) (s_y objData)
                          (scale (room s));
            loadedObj' = loadedObj\<lparr>rotation := number_or_zero (s_rotation objData)\<rparr>;
            s' = s\<lparr>heap := (heap s)(r := loadedObj'), objectCounter := r + 1,
                   placedObjects := placedObjects s @ [r]\<rparr>
        in loadEach clock (index + 1) rest (s', max customObjectCounter (index + 1)))"

definition loadObjectsIntoManager ::
  "(nat \<Rightarrow> nat) \<Rightarrow> state \<times> nat \<Rightarrow> savedObject option list \<Rightarrow> state \<times> nat" where
  "loadObjectsIntoManager clock app objectsData = loadEach clock 0 objectsData app"

subsection \<open>Sequences of manager operations\<close>

datatype operation =
  AddObject "objectDefinition option" jsnum jsnum
| SelectObject "ref option"
| SelectObjectAt jsnum jsnum
| MoveSelectedObject jsnum jsnum
| RotateSelectedObject
| DeleteSelectedObject
| UpdateObjectScales jsnum

fun apply_operation :: "state \<Rightarrow> operation \<Rightarrow> state" where
  "apply_operation s (AddObject d x y) = fst (addObject s d x y)"
| "apply_operation s (SelectObject t) = selectObject s t"
| "apply_operation s (SelectObjectAt x y) = fst (selectObjectAt s x y)"
| "apply_operation s (MoveSelectedObject x y) = moveSelectedObject s x y"
| "apply_operation s RotateSelectedObject = rotateSelectedObject s"
| "apply_operation s DeleteSelectedObject = deleteSelectedObject s"
| "apply_operation s (UpdateObjectScales k) = updateObjectScales s k"

fun run :: "state \<Rightarrow> operation list \<Rightarrow> state" where
  "run s [] = s"
| "run s (c # cs) = run (apply_operation s c) cs"

text \<open>
  A sequence in which every \<open>selectObject\<close> is given \<^verbatim>\<open>null\<close> or an object that is in the
  collection at that moment.
\<close>

fun selects_members :: "state \<Rightarrow> operation list \<Rightarrow> bool" where
  "selects_members s [] = True"
| "selects_members s (SelectObject (Some r) # cs) =
     (r \<in> set (placedObjects s) \<and> selects_members (apply_operation s (SelectObject (Some r))) cs)"
| "selects_members s (c # cs) = selects_members (apply_operation s c) cs"


subsection \<open>Properties of states\<close>

text \<open>The selection invariant of the data model.\<close>

definition selection_invariant :: "state \<Rightarrow> bool" where
  "selection_invariant s =
     (case selectedObject s of
        None \<Rightarrow> \<forall>q \<in> set (placedObjects s). \<not> isSelected (heap s q)
      | Some r \<Rightarrow>
          r \<in> set (placedObjects s) \<and> isSelected (heap s r) \<and>
          (\<forall>q \<in> set (placedObjects s). q \<noteq> r \<longrightarrow> \<not> isSelected (heap s q)))"

text \<open>
  The collection holds each object once, every object in it was built by the constructor
  at its address, and the counter is beyond all of them.
\<close>

definition collection_ok :: "state \<Rightarrow> bool" where
  "collection_ok s =
     (distinct (placedObjects s) \<and>
      (\<forall>q \<in> set (placedObjects s). q < objectCounter s \<and> uniqueId (heap s q) = q))"




subsection \<open>Example objects and states\<close>

text \<open>
  An engine that rounds the cosine and the sine correctly, with its values at the double
  nearest to a quarter turn, \<open>884279719003555 / 2 ^ 49\<close>, written out: those that the
  common engines return, \<^verbatim>\<open>6.123233995736766e-17\<close> and 1.
\<close>

definition engine0 :: engine where
  "engine0 =
     \<lparr>cos_of = (\<lambda>a. if \<bar>a\<bar> = 884279719003555 / 2 ^ 49 then 4967757600021511 / 2 ^ 106
                     else rnd_fin (cos a)),
      sin_of = (\<lambda>a. if a = 884279719003555 / 2 ^ 49 then 1
                     else if a = - (884279719003555 / 2 ^ 49) then - 1
                     else rnd_fin (sin a))\<rparr>"

text \<open>
  A sofa of 2 by 1 units, built as the first object of the program at (400, 300) under the
  scale 175 of the 5 by 4 room, and the object that fills the addresses not yet used.
\<close>

definition sofaDef :: objectDefinition where
  "sofaDef = \<lparr>def_id = Some ''sofa'', def_name = Some ''Sofa'', def_width = Number (Fin 2),
     def_length = Number (Fin 1), def_color = None, def_label = None\<rparr>"

definition sofa :: PlacedObject where
  "sofa = PlacedObject_new 0 sofaDef (Number (Fin 400)) (Number (Fin 300)) (Fin 175)"

definition blank :: PlacedObject where
  "blank = PlacedObject_new 0 \<lparr>def_id = None, def_name = None, def_width = Undefined,
     def_length = Undefined, def_color = None, def_label = None\<rparr> Undefined Undefined (Fin 0)"

definition room54 :: Room where
  "room54 = \<lparr>width = Fin 5, length_units = Fin 4, scale = Fin 175, canvasWidth = Fin 875,
              canvasHeight = Fin 700\<rparr>"

text \<open>
  The manager that the constructor returns for the 5 by 4 room in a program that has built
  no object yet, and the same manager with a callback registered.
\<close>

definition new0 :: state where
  "new0 = \<lparr>math = engine0, heap = (\<lambda>a. blank), objectCounter = 0, room = room54,
           placedObjects = [], selectedObject = None, onChangeCallback = False, calls = 0\<rparr>"

definition st0 :: state where
  "st0 = setOnChangeCallback new0"

text \<open>\<open>st0\<close> after \<open>addObject\<close> of the sofa at (400, 300).\<close>

definition st1 :: state where
  "st1 = \<lparr>math = engine0, heap = (\<lambda>a. blank)(0 := sofa\<lparr>isSelected := True\<rparr>),
          objectCounter = 1, room = room54, placedObjects = [0], selectedObject = Some 0,
          onChangeCallback = True, calls = 2\<rparr>"

text \<open>A second sofa, overlapping the first, and \<open>st1\<close> after \<open>addObject\<close> of it at (500, 300).\<close>

definition sofa2 :: PlacedObject where
  "sofa2 = PlacedObject_new 1 sofaDef (Number (Fin 500)) (Number (Fin 300)) (Fin 175)"

definition st2 :: state where
  "st2 = \<lparr>math = engine0,
          heap = (\<lambda>a. blank)(0 := sofa\<lparr>isSelected := False\<rparr>, 1 := sofa2\<lparr>isSelected := True\<rparr>),
          objectCounter = 2, room = room54, placedObjects = [0, 1], selectedObject = Some 1,
          onChangeCallback = True, calls = 4\<rparr>"

text \<open>
  A second sofa placed on the first and turned by a quarter, and the manager after
  \<open>addObject\<close> of both and nine \<open>rotateSelectedObject\<close>.
\<close>

definition sofaR :: PlacedObject where
  "sofaR = (PlacedObject_new 1 sofaDef (Number (Fin 400)) (Number (Fin 300)) (Fin 175))
             \<lparr>rotation := Fin 90\<rparr>"

definition stR :: state where
  "stR = \<lparr>math = engine0,
          heap = (\<lambda>a. blank)(0 := sofa\<lparr>isSelected := False\<rparr>, 1 := sofaR\<lparr>isSelected := True\<rparr>),
          objectCounter = 2, room = room54, placedObjects = [0, 1], selectedObject = Some 1,
          onChangeCallback = True, calls = 13\<rparr>"

text \<open>
  The sofa with the rotation that the loader gives it from a record whose rotation is
  \<^verbatim>\<open>0.1\<close>, the double \<open>3602879701896397 / 2 ^ 55\<close>.
\<close>

definition tilted :: PlacedObject where
  "tilted = sofa\<lparr>rotation := Fin (3602879701896397 / 2 ^ 55)\<rparr>"







text \<open>A clock that reads 0 at every record.\<close>

definition still_clock :: "nat \<Rightarrow> nat" where
  "still_clock i = 0"

section \<open>Verification\<close>

subsection \<open>Rounding to doubles\<close>

lemma round_half_even_int [simp]: "round_half_even (of_int k) = k"
  by (simp add: round_half_even_def)

lemma round_half_even_0 [simp]: "round_half_even 0 = 0"
  using round_half_even_int[of 0] by simp

lemma round_half_even_near:
  assumes "\<bar>y - of_int k\<bar> < 1 / 2"
  shows "round_half_even y = k"
proof (cases "of_int k \<le> y")
  case True
  with assms have "\<lfloor>y\<rfloor> = k" by (intro floor_unique) (auto simp: abs_less_iff)
  with assms True show ?thesis by (simp add: round_half_even_def Let_def abs_less_iff)
next
  case False
  with assms have f: "\<lfloor>y\<rfloor> = k - 1" by (intro floor_unique) (auto simp: abs_less_iff)
  with assms False show ?thesis by (simp add: round_half_even_def Let_def abs_less_iff)
qed

lemma round_half_even_bounds: "\<lfloor>y\<rfloor> \<le> round_half_even y \<and> round_half_even y \<le> \<lfloor>y\<rfloor> + 1"
  by (simp add: round_half_even_def Let_def)

lemma round_half_even_nonneg: "0 \<le> y \<Longrightarrow> 0 \<le> round_half_even y"
  using round_half_even_bounds[of y] by (smt (verit) zero_le_floor)

lemma round_half_even_le: 
  assumes "y \<le> of_int n"
  shows "round_half_even y \<le> n"
proof (cases "y = of_int n")
  case True
  then show ?thesis by simp
next
  case False
  with assms have "y < of_int n" by simp
  then have "\<lfloor>y\<rfloor> < n" by (simp add: floor_less_iff)
  with round_half_even_bounds[of y] show ?thesis by linarith
qed

lemma ulp_exponent_eq:
  assumes "2 powr of_int p \<le> \<bar>x\<bar>" "\<bar>x\<bar> < 2 powr of_int (p + 1)" "- 1022 \<le> p"
  shows "ulp_exponent x = p - 52"
proof -
  from assms(1) have pos: "0 < \<bar>x\<bar>" by (smt (verit) powr_gt_zero)
  with assms(1,2) have "\<lfloor>log 2 \<bar>x\<bar>\<rfloor> = p"
    by (simp add: floor_log_eq_powr_iff)
  with assms(3) show ?thesis by (simp add: ulp_exponent_def)
qed

lemma ulp_exponent_ge:
  assumes "2 powr of_int p \<le> \<bar>x\<bar>"
  shows "p - 52 \<le> ulp_exponent x"
proof -
  from assms have pos: "0 < \<bar>x\<bar>" by (smt (verit) powr_gt_zero)
  with assms have "of_int p \<le> log 2 \<bar>x\<bar>" by (simp add: le_log_iff)
  then have "p \<le> \<lfloor>log 2 \<bar>x\<bar>\<rfloor>" by (simp add: le_floor_iff)
  then show ?thesis by (simp add: ulp_exponent_def)
qed

lemma ulp_exponent_le:
  assumes "x \<noteq> 0" "\<bar>x\<bar> < 2 powr of_int (p + 1)" "- 1074 \<le> p - 52"
  shows "ulp_exponent x \<le> p - 52"
proof -
  from assms(1) have pos: "0 < \<bar>x\<bar>" by simp
  with assms(2) have "log 2 \<bar>x\<bar> < of_int (p + 1)" by (simp add: log_less_iff)
  then have "\<lfloor>log 2 \<bar>x\<bar>\<rfloor> < p + 1" unfolding floor_less_iff .
  with assms(3) show ?thesis by (simp add: ulp_exponent_def)
qed

lemma powr_int_diff:
  assumes "E \<le> e"
  shows "(2::real) powr of_int e / 2 powr of_int E = 2 ^ nat (e - E)"
proof -
  have "(2::real) powr of_int e / 2 powr of_int E = 2 powr (of_int e - of_int E)"
    by (simp add: powr_diff)
  also have "of_int e - of_int E = real (nat (e - E))" using assms by simp
  also have "(2::real) powr real (nat (e - E)) = 2 ^ nat (e - E)" by (simp add: powr_realpow)
  finally show ?thesis .
qed

text \<open>A number with a significand below \<open>2 ^ 53\<close> is a double: rounding leaves it as it is.\<close>

lemma rnd_fin_exact:
  assumes "x = of_int m * 2 powr of_int e" "\<bar>m\<bar> < 2 ^ 53" "- 1074 \<le> e"
  shows "rnd_fin x = x"
proof (cases "m = 0")
  case True
  with assms(1) show ?thesis by (simp add: rnd_fin_def)
next
  case False
  let ?E = "ulp_exponent x"
  from False assms(1) have x0: "x \<noteq> 0" by simp
  have "\<bar>x\<bar> = \<bar>of_int m\<bar> * 2 powr of_int e" by (simp add: assms(1) abs_mult)
  also have "\<dots> < 2 ^ 53 * 2 powr of_int e"
  proof -
    from assms(2) have "\<bar>real_of_int m\<bar> < 2 ^ 53"
      by (metis of_int_abs of_int_less_numeral_power_cancel_iff)
    then show ?thesis by (simp add: mult_strict_right_mono)
  qed
  also have "\<dots> = 2 powr of_int (e + 52 + 1)"
    by (simp add: powr_add powr_realpow[symmetric] del: powr_realpow)
  finally have "\<bar>x\<bar> < 2 powr of_int (e + 52 + 1)" .
  from ulp_exponent_le[OF x0 this] assms(3) have Ee: "?E \<le> e" by simp
  have "x / 2 powr of_int ?E = of_int m * (2 powr of_int e / 2 powr of_int ?E)"
    by (simp add: assms(1))
  also have "\<dots> = of_int m * 2 ^ nat (e - ?E)" by (simp add: powr_int_diff[OF Ee])
  also have "\<dots> = of_int (m * 2 ^ nat (e - ?E))" by simp
  finally have q: "x / 2 powr of_int ?E = of_int (m * 2 ^ nat (e - ?E))" .
  have "rnd_fin x = of_int (m * 2 ^ nat (e - ?E)) * 2 powr of_int ?E"
    unfolding rnd_fin_def q round_half_even_int ..
  also have "\<dots> = x / 2 powr of_int ?E * 2 powr of_int ?E" by (simp only: q)
  also have "\<dots> = x" by simp
  finally show ?thesis .
qed

text \<open>Rounding a number between \<open>2 ^ (e + 52)\<close> and \<open>2 ^ (e + 53)\<close>: the nearest multiple of \<open>2 ^ e\<close>.\<close>

lemma rnd_fin_near:
  assumes "2 powr of_int (e + 52) \<le> \<bar>x\<bar>" "\<bar>x\<bar> < 2 powr of_int (e + 53)" "- 1074 \<le> e"
    and "\<bar>x / 2 powr of_int e - of_int k\<bar> < 1 / 2"
  shows "rnd_fin x = of_int k * 2 powr of_int e"
proof -
  from assms(2) have "\<bar>x\<bar> < 2 powr of_int (e + 52 + 1)" by (simp add: add.commute add.left_commute)
  from ulp_exponent_eq[OF assms(1) this] assms(3) have "ulp_exponent x = e" by simp
  with assms(4) show ?thesis by (simp add: rnd_fin_def round_half_even_near)
qed

text \<open>A rounded number of magnitude \<open>2 ^ p\<close> or more is a multiple of \<open>2 ^ (p - 52)\<close>.\<close>

lemma rnd_fin_multiple:
  assumes "2 powr of_int p \<le> \<bar>x\<bar>"
  shows "\<exists>k::int. rnd_fin x = of_int k * 2 powr of_int (p - 52)"
proof -
  let ?E = "ulp_exponent x"
  from ulp_exponent_ge[OF assms] have le: "p - 52 \<le> ?E" .
  let ?r = "round_half_even (x / 2 powr of_int ?E)"
  have "(2::real) powr of_int ?E = 2 ^ nat (?E - (p - 52)) * 2 powr of_int (p - 52)"
    using powr_int_diff[OF le] by (simp add: field_simps)
  then have "rnd_fin x = of_int (?r * 2 ^ nat (?E - (p - 52))) * 2 powr of_int (p - 52)"
    by (simp add: rnd_fin_def)
  then show ?thesis by blast
qed

lemma rnd_fin_nonneg: "0 \<le> x \<Longrightarrow> 0 \<le> rnd_fin x"
  by (simp add: rnd_fin_def round_half_even_nonneg)

text \<open>Rounding does not pass a power of two.\<close>

lemma rnd_fin_le_power:
  assumes "0 \<le> x" "x \<le> 2 powr of_int p" "- 1022 \<le> p"
  shows "rnd_fin x \<le> 2 powr of_int p"
proof (cases "x = 0")
  case True
  then show ?thesis by (simp add: rnd_fin_def)
next
  case False
  show ?thesis
  proof (cases "x = 2 powr of_int p")
    case True
    have "x = of_int 1 * 2 powr of_int p" by (simp add: True)
    from rnd_fin_exact[OF this] assms(3) True show ?thesis by simp
  next
    case neq: False
    let ?E = "ulp_exponent x"
    have "(2::real) powr of_int p \<le> 2 powr of_int ((p + 51) + 1)" by simp
    with neq assms have lt: "\<bar>x\<bar> < 2 powr of_int ((p + 51) + 1)" by linarith
    from ulp_exponent_le[OF False lt] assms(3) have Ep: "?E \<le> p" by simp
    have "x / 2 powr of_int ?E \<le> 2 powr of_int p / 2 powr of_int ?E"
      using assms(2) by (simp add: divide_right_mono)
    also have "\<dots> = of_int (2 ^ nat (p - ?E))" by (simp add: powr_int_diff[OF Ep])
    finally have "round_half_even (x / 2 powr of_int ?E) \<le> 2 ^ nat (p - ?E)"
      by (rule round_half_even_le)
    then have "real_of_int (round_half_even (x / 2 powr of_int ?E)) \<le> 2 ^ nat (p - ?E)"
      by (metis of_int_le_iff of_int_numeral of_int_power)
    then have "rnd_fin x \<le> 2 ^ nat (p - ?E) * 2 powr of_int ?E"
      by (simp add: rnd_fin_def mult_right_mono)
    also have "\<dots> = 2 powr of_int p"
      using powr_int_diff[OF Ep] by (simp add: field_simps)
    finally show ?thesis .
  qed
qed


subsection \<open>Evaluating the rounded operations\<close>

lemma powr_neg_nat: "(2::real) powr - real n = 1 / 2 ^ n"
  by (simp add: powr_minus powr_realpow field_simps)

lemma powr_nat_diff: "(2::real) powr of_int (int a - int n) = 2 ^ a / 2 ^ n"
proof -
  have "(2::real) powr of_int (int a - int n) = 2 powr (real a - real n)" by simp
  also have "\<dots> = 2 powr real a / 2 powr real n" by (rule powr_diff)
  finally show ?thesis by (simp add: powr_realpow)
qed

lemma div_pow2_le:
  assumes "0 \<le> (a::real)"
  shows "a / 2 ^ n \<le> a"
proof -
  have "(1::real) \<le> 2 ^ n" by simp
  with assms have "a * 1 \<le> a * 2 ^ n" by (rule mult_left_mono[rotated])
  then show ?thesis by (simp add: field_simps)
qed

text \<open>A number \<open>m / 2 ^ n\<close> with \<open>\<bar>m\<bar> < 2 ^ 53\<close> is a double.\<close>

lemma rnd_exact:
  assumes "x * 2 ^ n = of_int m" "\<bar>m\<bar> < 2 ^ 53" "n \<le> 1074"
  shows "rnd x = Fin x"
proof -
  from assms(1) have x: "x = of_int m / 2 ^ n" by (simp add: field_simps)
  then have "x = of_int m * 2 powr of_int (- int n)" by (simp add: powr_neg_nat)
  from rnd_fin_exact[OF this assms(2)] assms(3) have r: "rnd_fin x = x" by simp
  from assms(2) have m: "\<bar>real_of_int m\<bar> < 2 ^ 53"
    by (metis of_int_abs of_int_less_numeral_power_cancel_iff)
  have "\<bar>x\<bar> = \<bar>real_of_int m\<bar> / 2 ^ n" by (simp add: x)
  also have "\<dots> \<le> \<bar>real_of_int m\<bar>" by (rule div_pow2_le) simp
  finally have "\<bar>x\<bar> < 2 ^ 53" using m by linarith
  moreover have "(2::real) ^ 53 < 2 ^ 1024" by simp
  ultimately have "\<bar>x\<bar> < 2 ^ 1024" by linarith
  then have "\<not> 2 ^ 1024 \<le> x" "\<not> x \<le> - (2 ^ 1024)" by linarith+
  with r show ?thesis by (simp add: rnd_def)
qed

lemma rnd_of_int: "\<bar>m\<bar> < 2 ^ 53 \<Longrightarrow> rnd (of_int m) = Fin (of_int m)"
  using rnd_exact[of "of_int m" 0 m] by simp

lemma rnd_0 [simp]: "rnd 0 = Fin 0"
  using rnd_of_int[of 0] by simp

lemma rnd_1 [simp]: "rnd 1 = Fin 1"
  using rnd_of_int[of 1] by simp

lemma rnd_numeral [simp]: "numeral k < (2::int) ^ 53 \<Longrightarrow> rnd (numeral k) = Fin (numeral k)"
  using rnd_of_int[of "numeral k"] by simp

lemma rnd_neg_numeral [simp]:
  "numeral k < (2::int) ^ 53 \<Longrightarrow> rnd (- numeral k) = Fin (- numeral k)"
  using rnd_of_int[of "- numeral k"] by simp

text \<open>
  Rounding a number whose multiple by \<open>2 ^ n\<close> lies between \<open>2 ^ 52\<close> and \<open>2 ^ 53\<close>: the
  nearest multiple of \<open>1 / 2 ^ n\<close>.
\<close>

lemma rnd_near:
  assumes "2 ^ 52 \<le> \<bar>x\<bar> * 2 ^ n" "\<bar>x\<bar> * 2 ^ n < 2 ^ 53" "n \<le> 1074"
    and "\<bar>x * 2 ^ n - of_int k\<bar> < 1 / 2"
  shows "rnd x = Fin (of_int k / 2 ^ n)"
proof -
  let ?e = "- int n"
  have p52: "(2::real) powr of_int (?e + 52) = 2 ^ 52 / 2 ^ n"
    using powr_nat_diff[of 52 n] by (simp add: add.commute)
  have p53: "(2::real) powr of_int (?e + 53) = 2 ^ 53 / 2 ^ n"
    using powr_nat_diff[of 53 n] by (simp add: add.commute)
  from assms(1) have a1: "2 powr of_int (?e + 52) \<le> \<bar>x\<bar>"
    unfolding p52 by (simp add: field_simps)
  from assms(2) have a2: "\<bar>x\<bar> < 2 powr of_int (?e + 53)"
    unfolding p53 by (simp add: field_simps)
  from assms(3) have a3: "- 1074 \<le> ?e" by simp
  from assms(4) have a4: "\<bar>x / 2 powr of_int ?e - of_int k\<bar> < 1 / 2"
    by (simp add: powr_neg_nat)
  from rnd_fin_near[OF a1 a2 a3 a4] have r: "rnd_fin x = of_int k / 2 ^ n"
    by (simp add: powr_neg_nat)
  from assms(4) have "\<bar>real_of_int k\<bar> < \<bar>x * 2 ^ n\<bar> + 1 / 2" by linarith
  also have "\<bar>x * 2 ^ n\<bar> = \<bar>x\<bar> * 2 ^ n" by (simp add: abs_mult)
  finally have "\<bar>real_of_int k\<bar> < 2 ^ 53 + 1 / 2" using assms(2) by linarith
  moreover have "\<bar>real_of_int k\<bar> / 2 ^ n \<le> \<bar>real_of_int k\<bar>"
    by (rule div_pow2_le) simp
  moreover have "(2::real) ^ 53 + 1 / 2 < 2 ^ 1024" by simp
  ultimately have "\<bar>real_of_int k\<bar> / 2 ^ n < 2 ^ 1024" by linarith
  then have "\<bar>real_of_int k / 2 ^ n\<bar> < 2 ^ 1024" by simp
  then have "\<not> 2 ^ 1024 \<le> real_of_int k / 2 ^ n" "\<not> real_of_int k / 2 ^ n \<le> - (2 ^ 1024)"
    by linarith+
  with r show ?thesis by (simp add: rnd_def)
qed






lemma rnd_half [simp]: "numeral k < (2::int) ^ 53 \<Longrightarrow> rnd (numeral k / 2) = Fin (numeral k / 2)"
  using rnd_exact[of "numeral k / 2" 1 "numeral k"] by simp




subsection \<open>Effects of the operations on the fields\<close>

lemma notifyChange_eq: "notifyChange s = s\<lparr>calls := (if onChangeCallback s then calls s + 1 else calls s)\<rparr>"
  by (simp add: notifyChange_def)

lemma notifyChange_fields [simp]:
  "math (notifyChange s) = math s"
  "heap (notifyChange s) = heap s"
  "objectCounter (notifyChange s) = objectCounter s"
  "room (notifyChange s) = room s"
  "placedObjects (notifyChange s) = placedObjects s"
  "selectedObject (notifyChange s) = selectedObject s"
  "onChangeCallback (notifyChange s) = onChangeCallback s"
  by (simp_all add: notifyChange_def)

lemma calls_notifyChange:
  "calls (notifyChange s) = (if onChangeCallback s then calls s + 1 else calls s)"
  by (simp add: notifyChange_def)

lemma selectObject_fields [simp]:
  "math (selectObject s t) = math s"
  "objectCounter (selectObject s t) = objectCounter s"
  "room (selectObject s t) = room s"
  "placedObjects (selectObject s t) = placedObjects s"
  "selectedObject (selectObject s t) = t"
  "onChangeCallback (selectObject s t) = onChangeCallback s"
  by (simp_all add: selectObject_def Let_def split: option.splits)

lemma calls_selectObject:
  "calls (selectObject s t) = (if onChangeCallback s then calls s + 1 else calls s)"
  by (simp add: selectObject_def calls_notifyChange Let_def split: option.splits)

lemma heap_selectObject:
  "heap (selectObject s t) q =
     (heap s q)\<lparr>isSelected :=
        (if t = Some q then True
         else if selectedObject s = Some q then False
         else isSelected (heap s q))\<rparr>"
  by (auto simp: selectObject_def Let_def split: option.splits)

lemma scanFrom_None:
  "scanFrom M h objs x y n = None \<Longrightarrow> i < n \<Longrightarrow> \<not> hitTest M (h (objs ! i)) x y"
proof (induction n)
  case 0
  then show ?case by simp
next
  case (Suc n)
  then show ?case by (cases "i = n") (auto split: if_splits)
qed

lemma scanFrom_Some:
  "scanFrom M h objs x y n = Some r \<Longrightarrow>
     \<exists>i<n. objs ! i = r \<and> hitTest M (h r) x y \<and>
            (\<forall>j. i < j \<and> j < n \<longrightarrow> \<not> hitTest M (h (objs ! j)) x y)"
proof (induction n)
  case 0
  then show ?case by simp
next
  case (Suc n)
  show ?case
  proof (cases "hitTest M (h (objs ! n)) x y")
    case True
    with Suc.prems have "objs ! n = r" by simp
    with True show ?thesis by (intro exI[of _ n]) auto
  next
    case False
    with Suc.prems have "scanFrom M h objs x y n = Some r" by simp
    from Suc.IH[OF this] obtain i where i: "i < n" "objs ! i = r" "hitTest M (h r) x y"
      "\<forall>j. i < j \<and> j < n \<longrightarrow> \<not> hitTest M (h (objs ! j)) x y" by blast
    have "\<forall>j. i < j \<and> j < Suc n \<longrightarrow> \<not> hitTest M (h (objs ! j)) x y"
    proof (intro allI impI)
      fix j assume "i < j \<and> j < Suc n"
      then show "\<not> hitTest M (h (objs ! j)) x y"
        using i(4) False by (cases "j = n") auto
    qed
    with i show ?thesis by (intro exI[of _ i]) auto
  qed
qed

lemma scanFrom_member:
  "scanFrom M h objs x y (length objs) = Some r \<Longrightarrow> r \<in> set objs"
  using scanFrom_Some[of M h objs x y "length objs" r] by (auto simp: in_set_conv_nth)

lemma selectObjectAt_fields [simp]:
  "math (fst (selectObjectAt s x y)) = math s"
  "objectCounter (fst (selectObjectAt s x y)) = objectCounter s"
  "room (fst (selectObjectAt s x y)) = room s"
  "placedObjects (fst (selectObjectAt s x y)) = placedObjects s"
  "onChangeCallback (fst (selectObjectAt s x y)) = onChangeCallback s"
  by (simp_all add: selectObjectAt_def Let_def)

lemma findIndex_Some: "x \<in> set xs \<Longrightarrow> P x \<Longrightarrow> \<exists>i. findIndex P xs = Some i"
  by (induction xs) auto

lemma findIndex_first:
  "findIndex P xs = Some i \<Longrightarrow> i < length xs \<and> P (xs ! i) \<and> (\<forall>j<i. \<not> P (xs ! j))"
proof (induction xs arbitrary: i)
  case Nil
  then show ?case by simp
next
  case (Cons a xs)
  show ?case
  proof (cases "P a")
    case True
    with Cons.prems show ?thesis by simp
  next
    case False
    with Cons.prems obtain k where k: "findIndex P xs = Some k" "i = Suc k" by auto
    from Cons.IH[OF k(1)] False k(2) show ?thesis
      by (auto simp: nth_Cons split: nat.splits)
  qed
qed

lemma splice1_distinct:
  assumes "distinct xs" "i < length xs"
  shows "set (splice1 i xs) = set xs - {xs ! i} \<and> distinct (splice1 i xs)"
proof -
  have xs: "xs = take i xs @ xs ! i # drop (Suc i) xs"
    using assms(2) by (simp add: id_take_nth_drop)
  with assms(1) have d: "distinct (take i xs @ xs ! i # drop (Suc i) xs)" by simp
  then have "xs ! i \<notin> set (take i xs)" "xs ! i \<notin> set (drop (Suc i) xs)"
    "distinct (take i xs @ drop (Suc i) xs)" by auto
  moreover have "set xs = set (take i xs) \<union> {xs ! i} \<union> set (drop (Suc i) xs)"
    by (subst xs) auto
  ultimately show ?thesis by (auto simp: splice1_def)
qed

lemma deleteSelectedObject_heap [simp]:
  "heap (deleteSelectedObject s) = heap s" "math (deleteSelectedObject s) = math s"
  by (simp_all add: deleteSelectedObject_def split: option.splits)

lemma deleteSelectedObject_member:
  assumes "selectedObject s = Some r" "r \<in> set (placedObjects s)" "collection_ok s"
  shows "selectedObject (deleteSelectedObject s) = None"
    and "set (placedObjects (deleteSelectedObject s)) = set (placedObjects s) - {r}"
    and "distinct (placedObjects (deleteSelectedObject s))"
    and "objectCounter (deleteSelectedObject s) = objectCounter s"
proof -
  let ?P = "\<lambda>a. uniqueId (heap s a) = uniqueId (heap s r)"
  from assms(2) obtain i where i: "findIndex ?P (placedObjects s) = Some i"
    using findIndex_Some[of r "placedObjects s" ?P] by auto
  from findIndex_first[OF i] have il: "i < length (placedObjects s)"
    and ip: "?P (placedObjects s ! i)" by auto
  from il have "placedObjects s ! i \<in> set (placedObjects s)" by simp
  with assms(2,3) ip have ir: "placedObjects s ! i = r" by (auto simp: collection_ok_def)
  from assms(3) have "distinct (placedObjects s)" by (simp add: collection_ok_def)
  from splice1_distinct[OF this il] ir
  have sp: "set (splice1 i (placedObjects s)) = set (placedObjects s) - {r}"
    "distinct (splice1 i (placedObjects s))" by auto
  from assms(1) i show "selectedObject (deleteSelectedObject s) = None"
    by (simp add: deleteSelectedObject_def)
  from assms(1) i sp show "set (placedObjects (deleteSelectedObject s)) = set (placedObjects s) - {r}"
    by (simp add: deleteSelectedObject_def)
  from assms(1) i sp show "distinct (placedObjects (deleteSelectedObject s))"
    by (simp add: deleteSelectedObject_def)
  from assms(1) i show "objectCounter (deleteSelectedObject s) = objectCounter s"
    by (simp add: deleteSelectedObject_def)
qed

lemma moveSelectedObject_fields [simp]:
  "math (moveSelectedObject s x y) = math s"
  "objectCounter (moveSelectedObject s x y) = objectCounter s"
  "room (moveSelectedObject s x y) = room s"
  "placedObjects (moveSelectedObject s x y) = placedObjects s"
  "selectedObject (moveSelectedObject s x y) = selectedObject s"
  "onChangeCallback (moveSelectedObject s x y) = onChangeCallback s"
  by (simp_all add: moveSelectedObject_def Let_def split: option.splits prod.splits)

lemma heap_moveSelectedObject:
  "heap (moveSelectedObject s x y) q =
     (if selectedObject s = Some q
      then setPosition (heap s q)
             (Number (Math_max (fdiv (projectedWidth (math s) (heap s q)) (Fin 2))
                (Math_min x (fsub (canvasWidth (room s))
                               (fdiv (projectedWidth (math s) (heap s q)) (Fin 2))))))
             (Number (Math_max (fdiv (projectedHeight (math s) (heap s q)) (Fin 2))
                (Math_min y (fsub (canvasHeight (room s))
                               (fdiv (projectedHeight (math s) (heap s q)) (Fin 2))))))
      else heap s q)"
  by (auto simp: moveSelectedObject_def room_getPixelDimensions_def Let_def split: option.splits)

lemma rotateSelectedObject_fields [simp]:
  "math (rotateSelectedObject s) = math s"
  "objectCounter (rotateSelectedObject s) = objectCounter s"
  "room (rotateSelectedObject s) = room s"
  "placedObjects (rotateSelectedObject s) = placedObjects s"
  "selectedObject (rotateSelectedObject s) = selectedObject s"
  "onChangeCallback (rotateSelectedObject s) = onChangeCallback s"
  by (simp_all add: rotateSelectedObject_def split: option.splits)

lemma heap_rotateSelectedObject:
  "heap (rotateSelectedObject s) q =
     (if selectedObject s = Some q then rotate_obj (heap s q) else heap s q)"
  by (auto simp: rotateSelectedObject_def split: option.splits)

lemma updateScale_idem: "updateScale (updateScale ob k) k = updateScale ob k"
  by (simp add: updateScale_def)

lemma fold_update_heap:
  assumes "\<And>ob. f (f ob) = f ob"
  shows "fold (\<lambda>r h. h(r := f (h r))) xs h q = (if q \<in> set xs then f (h q) else h q)"
proof (induction xs arbitrary: h)
  case Nil
  then show ?case by simp
next
  case (Cons a xs)
  then show ?case using assms by auto
qed

lemma updateObjectScales_fields [simp]:
  "math (updateObjectScales s k) = math s"
  "objectCounter (updateObjectScales s k) = objectCounter s"
  "room (updateObjectScales s k) = room s"
  "placedObjects (updateObjectScales s k) = placedObjects s"
  "selectedObject (updateObjectScales s k) = selectedObject s"
  "onChangeCallback (updateObjectScales s k) = onChangeCallback s"
  by (simp_all add: updateObjectScales_def)

lemma heap_updateObjectScales:
  "heap (updateObjectScales s k) q =
     (if q \<in> set (placedObjects s) then updateScale (heap s q) k else heap s q)"
  by (simp add: updateObjectScales_def fold_update_heap[where f="\<lambda>ob. updateScale ob k", OF updateScale_idem])

text \<open>What a successful \<open>addObject\<close> does, field by field.\<close>

lemma addObject_cases:
  obtains (refused) "addObject s d x y = (s, None)"
  | (added) dd where "d = Some dd"
      "truthy (def_id dd)" "truthy (def_name dd)"
      "js_gt (ToNumber (def_width dd)) (Fin 0)" "js_gt (ToNumber (def_length dd)) (Fin 0)"
      "snd (addObject s d x y) = Some (objectCounter s)"
      "placedObjects (fst (addObject s d x y)) = placedObjects s @ [objectCounter s]"
      "selectedObject (fst (addObject s d x y)) = Some (objectCounter s)"
      "objectCounter (fst (addObject s d x y)) = objectCounter s + 1"
      "room (fst (addObject s d x y)) = room s"
      "onChangeCallback (fst (addObject s d x y)) = onChangeCallback s"
      "math (fst (addObject s d x y)) = math s"
      "\<And>q. heap (fst (addObject s d x y)) q =
         (if q = objectCounter s
          then (PlacedObject_new (objectCounter s) dd (Number x) (Number y)
                  (scale (room s)))\<lparr>isSelected := True\<rparr>
          else (heap s q)\<lparr>isSelected :=
                  (if selectedObject s = Some q then False else isSelected (heap s q))\<rparr>)"
proof (cases "addObject s d x y = (s, None)")
  case True
  then show ?thesis by (rule refused)
next
  case False
  then obtain dd where dd: "d = Some dd" by (cases d) (auto simp: addObject_def)
  from False dd have v: "truthy (def_id dd)" "truthy (def_name dd)"
    "js_gt (ToNumber (def_width dd)) (Fin 0)" "js_gt (ToNumber (def_length dd)) (Fin 0)"
    by (auto simp: addObject_def split: if_splits)
  show ?thesis
  proof (rule added[OF dd v])
    show "snd (addObject s d x y) = Some (objectCounter s)"
      using dd v by (simp add: addObject_def Let_def)
    show "placedObjects (fst (addObject s d x y)) = placedObjects s @ [objectCounter s]"
      using dd v by (simp add: addObject_def Let_def)
    show "selectedObject (fst (addObject s d x y)) = Some (objectCounter s)"
      using dd v by (simp add: addObject_def Let_def)
    show "objectCounter (fst (addObject s d x y)) = objectCounter s + 1"
      using dd v by (simp add: addObject_def Let_def)
    show "room (fst (addObject s d x y)) = room s"
      using dd v by (simp add: addObject_def Let_def)
    show "onChangeCallback (fst (addObject s d x y)) = onChangeCallback s"
      using dd v by (simp add: addObject_def Let_def)
    show "math (fst (addObject s d x y)) = math s"
      using dd v by (simp add: addObject_def Let_def)
    show "heap (fst (addObject s d x y)) q =
         (if q = objectCounter s
          then (PlacedObject_new (objectCounter s) dd (Number x) (Number y)
                  (scale (room s)))\<lparr>isSelected := True\<rparr>
          else (heap s q)\<lparr>isSelected :=
                  (if selectedObject s = Some q then False else isSelected (heap s q))\<rparr>)" for q
      using dd v by (auto simp: addObject_def Let_def heap_selectObject)
  qed
qed

lemma PlacedObject_new_fields [simp]:
  "uniqueId (PlacedObject_new c d x y k) = c"
  "typeId (PlacedObject_new c d x y k) = or_else (def_id d) ''custom''"
  "widthUnits (PlacedObject_new c d x y k) = def_width d"
  "lengthUnits (PlacedObject_new c d x y k) = def_length d"
  "obj_label (PlacedObject_new c d x y k) = or_else (def_label d) []"
  "obj_x (PlacedObject_new c d x y k) = x"
  "obj_y (PlacedObject_new c d x y k) = y"
  "rotation (PlacedObject_new c d x y k) = Fin 0"
  "isSelected (PlacedObject_new c d x y k) = False"
  "obj_scale (PlacedObject_new c d x y k) = k"
  "widthPixels (PlacedObject_new c d x y k) = fmul (ToNumber (def_width d)) k"
  "lengthPixels (PlacedObject_new c d x y k) = fmul (ToNumber (def_length d)) k"
  by (simp_all add: PlacedObject_new_def updateScale_def)


subsection \<open>Preservation of the selection invariant\<close>

lemma selectObject_invariant:
  assumes "selection_invariant s" "t = None \<or> (\<exists>r. t = Some r \<and> r \<in> set (placedObjects s))"
  shows "selection_invariant (selectObject s t)"
  using assms
  by (auto simp: selection_invariant_def heap_selectObject split: option.splits)

lemma selectObject_collection_ok:
  "collection_ok s \<Longrightarrow> collection_ok (selectObject s t)"
  by (simp add: collection_ok_def heap_selectObject)

lemma selectObjectAt_invariant:
  assumes "selection_invariant s"
  shows "selection_invariant (fst (selectObjectAt s x y))"
proof -
  let ?f = "scanFrom (math s) (heap s) (placedObjects s) x y (length (placedObjects s))"
  have "?f = None \<or> (\<exists>r. ?f = Some r \<and> r \<in> set (placedObjects s))"
    using scanFrom_member[of "math s" "heap s" "placedObjects s" x y] by (cases ?f) auto
  from selectObject_invariant[OF assms this] show ?thesis
    by (simp add: selectObjectAt_def Let_def)
qed

lemma selectObjectAt_collection_ok:
  "collection_ok s \<Longrightarrow> collection_ok (fst (selectObjectAt s x y))"
  by (simp add: selectObjectAt_def Let_def selectObject_collection_ok)

lemma addObject_invariant:
  assumes "selection_invariant s" "collection_ok s"
  shows "selection_invariant (fst (addObject s d x y)) \<and> collection_ok (fst (addObject s d x y))"
proof (cases rule: addObject_cases[of s d x y])
  case refused
  with assms show ?thesis by simp
next
  case (added dd)
  from assms(2) have fresh: "objectCounter s \<notin> set (placedObjects s)"
    by (auto simp: collection_ok_def)
  have "selection_invariant (fst (addObject s d x y))"
    using assms(1) fresh added(7,8,13)
    by (auto simp: selection_invariant_def split: option.splits)
  moreover have "collection_ok (fst (addObject s d x y))"
    using assms(2) fresh added(7,9,13)
    by (auto simp: collection_ok_def)
  ultimately show ?thesis by simp
qed

lemma moveSelectedObject_invariant:
  "selection_invariant s \<Longrightarrow> selection_invariant (moveSelectedObject s x y)"
  by (auto simp: selection_invariant_def heap_moveSelectedObject setPosition_def split: option.splits)

lemma moveSelectedObject_collection_ok:
  "collection_ok s \<Longrightarrow> collection_ok (moveSelectedObject s x y)"
  by (simp add: collection_ok_def heap_moveSelectedObject setPosition_def)

lemma rotateSelectedObject_invariant:
  "selection_invariant s \<Longrightarrow> selection_invariant (rotateSelectedObject s)"
  by (auto simp: selection_invariant_def heap_rotateSelectedObject rotate_obj_def split: option.splits)

lemma rotateSelectedObject_collection_ok:
  "collection_ok s \<Longrightarrow> collection_ok (rotateSelectedObject s)"
  by (simp add: collection_ok_def heap_rotateSelectedObject rotate_obj_def)

lemma updateObjectScales_invariant:
  "selection_invariant s \<Longrightarrow> selection_invariant (updateObjectScales s k)"
  by (auto simp: selection_invariant_def heap_updateObjectScales updateScale_def split: option.splits)

lemma updateObjectScales_collection_ok:
  "collection_ok s \<Longrightarrow> collection_ok (updateObjectScales s k)"
  by (simp add: collection_ok_def heap_updateObjectScales updateScale_def)

lemma deleteSelectedObject_invariant:
  assumes "selection_invariant s" "collection_ok s"
  shows "selection_invariant (deleteSelectedObject s) \<and> collection_ok (deleteSelectedObject s)"
proof (cases "selectedObject s")
  case None
  with assms show ?thesis by (simp add: deleteSelectedObject_def)
next
  case (Some r)
  with assms(1) have r: "r \<in> set (placedObjects s)"
    and others: "\<forall>q \<in> set (placedObjects s). q \<noteq> r \<longrightarrow> \<not> isSelected (heap s q)"
    by (auto simp: selection_invariant_def)
  note del = deleteSelectedObject_member[OF Some r assms(2)]
  have "selection_invariant (deleteSelectedObject s)"
    using del(1,2) others by (simp add: selection_invariant_def)
  moreover have "collection_ok (deleteSelectedObject s)"
    using del(2,3,4) assms(2) by (simp add: collection_ok_def)
  ultimately show ?thesis by simp
qed

lemma run_invariant:
  assumes "selection_invariant s" "collection_ok s" "selects_members s cs"
  shows "selection_invariant (run s cs) \<and> collection_ok (run s cs)"
  using assms
proof (induction cs arbitrary: s)
  case Nil
  then show ?case by simp
next
  case (Cons c cs)
  have step: "selection_invariant (apply_operation s c) \<and> collection_ok (apply_operation s c)"
  proof (cases c)
    case (AddObject d x y)
    with Cons.prems addObject_invariant show ?thesis by simp
  next
    case (SelectObject t)
    with Cons.prems have "t = None \<or> (\<exists>r. t = Some r \<and> r \<in> set (placedObjects s))"
      by (cases t) auto
    with SelectObject Cons.prems show ?thesis
      by (simp add: selectObject_invariant selectObject_collection_ok)
  next
    case (SelectObjectAt x y)
    with Cons.prems show ?thesis
      by (simp add: selectObjectAt_invariant selectObjectAt_collection_ok)
  next
    case (MoveSelectedObject x y)
    with Cons.prems show ?thesis
      by (simp add: moveSelectedObject_invariant moveSelectedObject_collection_ok)
  next
    case RotateSelectedObject
    with Cons.prems show ?thesis
      by (simp add: rotateSelectedObject_invariant rotateSelectedObject_collection_ok)
  next
    case DeleteSelectedObject
    with Cons.prems deleteSelectedObject_invariant show ?thesis by simp
  next
    case (UpdateObjectScales k)
    with Cons.prems show ?thesis
      by (simp add: updateObjectScales_invariant updateObjectScales_collection_ok)
  qed
  have "selects_members (apply_operation s c) cs"
    using Cons.prems(3) by (cases c; cases "case c of SelectObject t \<Rightarrow> t | _ \<Rightarrow> None") auto
  with step Cons.IH show ?case by simp
qed

lemma empty_manager_invariant:
  assumes "placedObjects s = []" "selectedObject s = None"
  shows "selection_invariant s \<and> collection_ok s"
  using assms by (simp add: selection_invariant_def collection_ok_def)


subsection \<open>Comparisons and the example states\<close>

lemma js_gt_Fin [simp]: "js_gt (Fin a) (Fin b) = (b < a)"
  by (auto simp: js_gt_def)

lemma js_ge_Fin [simp]: "js_ge (Fin a) (Fin b) = (b \<le> a)"
  by (simp add: js_ge_def)


lemma new0_constructed: "ObjectManager_new engine0 (\<lambda>a. blank) 0 (Some room54) = Inr new0"
  by (simp add: ObjectManager_new_def new0_def)

lemma room54_constructed: "Room_new (Fin 5) (Fin 4) = Inr room54"
  by (simp add: Room_new_def room54_def calculateScale_def CANVAS_MAX_WIDTH_def
      CANVAS_MAX_HEIGHT_def Math_min_def)

lemma st0_fields [simp]:
  "math st0 = engine0"
  "heap st0 = (\<lambda>a. blank)" "objectCounter st0 = 0" "room st0 = room54"
  "placedObjects st0 = []" "selectedObject st0 = None" "onChangeCallback st0" "calls st0 = 0"
  by (simp_all add: st0_def new0_def setOnChangeCallback_def)

lemma addObject_sofa: "addObject st0 (Some sofaDef) (Fin 400) (Fin 300) = (st1, Some 0)"
  by (simp add: addObject_def sofaDef_def Let_def selectObject_def notifyChange_def st1_def
      sofa_def room54_def st0_def new0_def setOnChangeCallback_def)

lemma st1_fields [simp]:
  "math st1 = engine0"
  "heap st1 0 = sofa\<lparr>isSelected := True\<rparr>" "objectCounter st1 = 1" "room st1 = room54"
  "placedObjects st1 = [0]" "selectedObject st1 = Some 0" "onChangeCallback st1" "calls st1 = 2"
  by (simp_all add: st1_def)

lemma sofa_fields [simp]:
  "uniqueId sofa = 0" "widthPixels sofa = Fin 350" "lengthPixels sofa = Fin 175"
  "rotation sofa = Fin 0" "obj_x sofa = Number (Fin 400)" "obj_y sofa = Number (Fin 300)"
  "widthUnits sofa = Number (Fin 2)" "lengthUnits sofa = Number (Fin 1)"
  "\<not> isSelected sofa" "typeId sofa = ''sofa''" "obj_label sofa = []"
  by (simp_all add: sofa_def sofaDef_def)

lemma st1_invariants: "selection_invariant st1 \<and> collection_ok st1"
  by (simp add: selection_invariant_def collection_ok_def)

lemma addObject_sofa2: "addObject st1 (Some sofaDef) (Fin 500) (Fin 300) = (st2, Some 1)"
  by (simp add: addObject_def sofaDef_def Let_def selectObject_def notifyChange_def st1_def
      st2_def sofa2_def room54_def fun_upd_twist)

lemma st2_fields [simp]:
  "math st2 = engine0"
  "heap st2 0 = sofa\<lparr>isSelected := False\<rparr>" "heap st2 1 = sofa2\<lparr>isSelected := True\<rparr>"
  "heap st2 (Suc 0) = sofa2\<lparr>isSelected := True\<rparr>"
  "placedObjects st2 = [0, 1]" "selectedObject st2 = Some 1" "onChangeCallback st2" "calls st2 = 4"
  by (simp_all add: st2_def)

lemma st2_invariants: "selection_invariant st2 \<and> collection_ok st2"
  by (simp add: selection_invariant_def collection_ok_def st2_def sofa2_def)


subsection \<open>Room construction\<close>

text \<open>
  Claim C7. For positive dimensions the constructor returns a room whose scale is the
  smaller of \<open>CANVAS_MAX_WIDTH / w\<close> and \<open>CANVAS_MAX_HEIGHT / l\<close> and whose pixel size is
  the dimensions times that scale, each as the double arithmetic of the source gives it;
  it throws when a dimension is \<open>\<le> 0\<close>; and with the configured canvas of 1000 by 700 a
  room of 5 by 4 has scale 175 and 875 by 700 pixels.
\<close>

theorem Room_new_scale:
  "(js_gt w (Fin 0) \<and> js_gt l (Fin 0) \<longrightarrow>
      Room_new w l =
        Inr \<lparr>width = w, length_units = l,
             scale = Math_min (fdiv CANVAS_MAX_WIDTH w) (fdiv CANVAS_MAX_HEIGHT l),
             canvasWidth = fmul w (Math_min (fdiv CANVAS_MAX_WIDTH w) (fdiv CANVAS_MAX_HEIGHT l)),
             canvasHeight = fmul l (Math_min (fdiv CANVAS_MAX_WIDTH w) (fdiv CANVAS_MAX_HEIGHT l))\<rparr>)
   \<and> (js_le w (Fin 0) \<or> js_le l (Fin 0) \<longrightarrow> (\<exists>e. Room_new w l = Inl e))
   \<and> CANVAS_MAX_WIDTH = Fin 1000 \<and> CANVAS_MAX_HEIGHT = Fin 700
   \<and> Room_new (Fin 5) (Fin 4) =
       Inr \<lparr>width = Fin 5, length_units = Fin 4, scale = Fin 175, canvasWidth = Fin 875,
            canvasHeight = Fin 700\<rparr>"
proof -
  have a: "js_gt w (Fin 0) \<and> js_gt l (Fin 0) \<longrightarrow>
      Room_new w l =
        Inr \<lparr>width = w, length_units = l,
             scale = Math_min (fdiv CANVAS_MAX_WIDTH w) (fdiv CANVAS_MAX_HEIGHT l),
             canvasWidth = fmul w (Math_min (fdiv CANVAS_MAX_WIDTH w) (fdiv CANVAS_MAX_HEIGHT l)),
             canvasHeight = fmul l (Math_min (fdiv CANVAS_MAX_WIDTH w) (fdiv CANVAS_MAX_HEIGHT l))\<rparr>"
    by (auto simp: Room_new_def calculateScale_def Let_def js_gt_def)
  have b: "js_le w (Fin 0) \<or> js_le l (Fin 0) \<longrightarrow> (\<exists>e. Room_new w l = Inl e)"
    by (auto simp: Room_new_def)
  from a b room54_constructed show ?thesis
    by (simp add: CANVAS_MAX_WIDTH_def CANVAS_MAX_HEIGHT_def room54_def)
qed

text \<open>A room of 2 by 10, and a room of width 0.\<close>

theorem Room_new_scale_witness:
  "js_gt (Fin 2) (Fin 0) \<and> js_gt (Fin 10) (Fin 0)
   \<and> Room_new (Fin 2) (Fin 10) =
       Inr \<lparr>width = Fin 2, length_units = Fin 10, scale = Fin 70, canvasWidth = Fin 140,
            canvasHeight = Fin 700\<rparr>
   \<and> js_le (Fin 0) (Fin 0)
   \<and> Room_new (Fin 0) (Fin 4) = Inl (Error ''Room dimensions must be positive.'')"
proof -
  have p: "js_gt (Fin 2) (Fin 0) \<and> js_gt (Fin 10) (Fin 0)" by simp
  with Room_new_scale [of "Fin 2" "Fin 10"]
  have "Room_new (Fin 2) (Fin 10) =
        Inr \<lparr>width = Fin 2, length_units = Fin 10,
             scale = Math_min (fdiv CANVAS_MAX_WIDTH (Fin 2)) (fdiv CANVAS_MAX_HEIGHT (Fin 10)),
             canvasWidth = fmul (Fin 2)
                (Math_min (fdiv CANVAS_MAX_WIDTH (Fin 2)) (fdiv CANVAS_MAX_HEIGHT (Fin 10))),
             canvasHeight = fmul (Fin 10)
                (Math_min (fdiv CANVAS_MAX_WIDTH (Fin 2)) (fdiv CANVAS_MAX_HEIGHT (Fin 10)))\<rparr>"
    by blast
  then have a: "Room_new (Fin 2) (Fin 10) =
       Inr \<lparr>width = Fin 2, length_units = Fin 10, scale = Fin 70, canvasWidth = Fin 140,
            canvasHeight = Fin 700\<rparr>"
    by (simp add: CANVAS_MAX_WIDTH_def CANVAS_MAX_HEIGHT_def Math_min_def)
  have q: "js_le (Fin 0) (Fin 0) \<or> js_le (Fin 4) (Fin 0)" by simp
  with Room_new_scale [of "Fin 0" "Fin 4"] obtain e where "Room_new (Fin 0) (Fin 4) = Inl e"
    by blast
  then have b: "Room_new (Fin 0) (Fin 4) = Inl (Error ''Room dimensions must be positive.'')"
    by (simp add: Room_new_def)
  from a b show ?thesis by simp
qed


subsection \<open>Refused definitions\<close>




subsection \<open>Callback invocations per operation\<close>

lemma calls_addObject_valid:
  assumes "truthy (def_id d)" "truthy (def_name d)"
    "js_gt (ToNumber (def_width d)) (Fin 0)" "js_gt (ToNumber (def_length d)) (Fin 0)"
  shows "calls (fst (addObject s (Some d) x y)) =
           (if onChangeCallback s then calls s + 2 else calls s)"
  using assms by (simp add: addObject_def Let_def calls_notifyChange calls_selectObject)

lemma calls_selectObjectAt:
  "calls (fst (selectObjectAt s x y)) = (if onChangeCallback s then calls s + 1 else calls s)"
  by (simp add: selectObjectAt_def Let_def calls_selectObject)

text \<open>
  Claim C1 fails on \<open>addObject\<close>. One \<open>addObject\<close> of a valid definition on a new manager
  with a registered callback: the object is added and returned, and the callback has been
  invoked twice, once by the \<open>selectObject\<close> that \<open>addObject\<close> calls and once by
  \<open>addObject\<close> itself. \<open>selectObjectAt\<close>, which also calls \<open>selectObject\<close>, invokes it
  once.
\<close>

theorem addObject_notifies_twice:
  "onChangeCallback st0
   \<and> snd (addObject st0 (Some sofaDef) (Fin 400) (Fin 300)) = Some 0
   \<and> placedObjects (fst (addObject st0 (Some sofaDef) (Fin 400) (Fin 300))) = [0]
   \<and> calls (fst (addObject st0 (Some sofaDef) (Fin 400) (Fin 300))) = calls st0 + 2
   \<and> calls (fst (selectObjectAt st0 (Fin 400) (Fin 300))) = calls st0 + 1"
  by (simp add: addObject_sofa calls_selectObjectAt)

text \<open>The counts of that run: two invocations for \<open>addObject\<close>, one for \<open>selectObjectAt\<close>.\<close>

theorem addObject_notifies_twice_witness:
  "calls (fst (addObject st0 (Some sofaDef) (Fin 400) (Fin 300))) = 2
   \<and> calls (fst (selectObjectAt st0 (Fin 400) (Fin 300))) = 1"
  using addObject_notifies_twice by simp


subsection \<open>The selection invariant\<close>

text \<open>
  Claim C4, as the code has it. From a new manager, with or without a callback, every
  sequence of operations in which \<open>selectObject\<close> is only given \<^verbatim>\<open>null\<close> or an object of
  the collection leaves the selection invariant true: the selected object, if any, is in
  the collection and flagged, and no other object of the collection is flagged.
\<close>

theorem selection_invariant_reachable:
  assumes "ObjectManager_new M h counter rm = Inr m"
    and "s0 = m \<or> s0 = setOnChangeCallback m"
    and "selects_members s0 cs"
  shows "selection_invariant (run s0 cs)"
proof -
  from assms(1) have "placedObjects m = [] \<and> selectedObject m = None"
    by (auto simp: ObjectManager_new_def split: option.splits)
  with assms(2) have "placedObjects s0 = []" "selectedObject s0 = None"
    by (auto simp: setOnChangeCallback_def)
  from empty_manager_invariant[OF this] run_invariant assms(3) show ?thesis by blast
qed

text \<open>
  Two sofas are added, the lower one is selected by position, moved, rotated and rescaled,
  then the upper one is selected directly and deleted, and the selection is cleared.
\<close>

theorem selection_invariant_reachable_witness:
  "ObjectManager_new engine0 (\<lambda>a. blank) 0 (Some room54) = Inr new0
   \<and> st0 = setOnChangeCallback new0
   \<and> selects_members st0
        [AddObject (Some sofaDef) (Fin 400) (Fin 300), AddObject (Some sofaDef) (Fin 500) (Fin 300),
         SelectObjectAt (Fin 250) (Fin 300), MoveSelectedObject (Fin (- 500)) (Fin 350),
         RotateSelectedObject, UpdateObjectScales (Fin 100), SelectObject (Some 1),
         DeleteSelectedObject, SelectObject None]
   \<and> selection_invariant
        (run st0
           [AddObject (Some sofaDef) (Fin 400) (Fin 300), AddObject (Some sofaDef) (Fin 500) (Fin 300),
            SelectObjectAt (Fin 250) (Fin 300), MoveSelectedObject (Fin (- 500)) (Fin 350),
            RotateSelectedObject, UpdateObjectScales (Fin 100), SelectObject (Some 1),
            DeleteSelectedObject, SelectObject None])"
proof -
  let ?cs = "[AddObject (Some sofaDef) (Fin 400) (Fin 300), AddObject (Some sofaDef) (Fin 500) (Fin 300),
         SelectObjectAt (Fin 250) (Fin 300), MoveSelectedObject (Fin (- 500)) (Fin 350),
         RotateSelectedObject, UpdateObjectScales (Fin 100), SelectObject (Some 1),
         DeleteSelectedObject, SelectObject None]"
  have m: "selects_members st0 ?cs"
    by (simp add: addObject_sofa addObject_sofa2)
  have c: "st0 = new0 \<or> st0 = setOnChangeCallback new0" by (simp add: st0_def)
  from selection_invariant_reachable[OF new0_constructed c m] new0_constructed m
  show ?thesis by (simp add: st0_def)
qed

text \<open>
  Add the sofa, delete it, and hand the deleted object, which \<open>addObject\<close> returned, to
  \<open>selectObject\<close>: the selected object is not in the collection.
\<close>

theorem selectObject_deleted_counterexample:
  "\<not> selection_invariant
       (run st0 [AddObject (Some sofaDef) (Fin 400) (Fin 300), DeleteSelectedObject,
                 SelectObject (Some 0)])"
  by (simp add: addObject_sofa selection_invariant_def deleteSelectedObject_def splice1_def)


subsection \<open>The deleted object keeps its flag\<close>

text \<open>
  Claim C10. \<open>deleteSelectedObject\<close> writes to no object: the heap after it is the heap
  before it. So when the selected object is in the collection (in a state that satisfies
  the invariants), the manager's selection is cleared and the object is gone from the
  collection, while the object itself, which a caller may still hold, is still flagged as
  selected.
\<close>

theorem deleted_object_stays_flagged:
  assumes "selectedObject s = Some r" "selection_invariant s" "collection_ok s"
  shows "heap (deleteSelectedObject s) = heap s
       \<and> selectedObject (deleteSelectedObject s) = None
       \<and> r \<notin> set (placedObjects (deleteSelectedObject s))
       \<and> isSelected (heap (deleteSelectedObject s) r)"
proof -
  from assms(1,2) have r: "r \<in> set (placedObjects s)" and f: "isSelected (heap s r)"
    by (auto simp: selection_invariant_def)
  from deleteSelectedObject_member[OF assms(1) r assms(3)] f show ?thesis by simp
qed

text \<open>Deleting the sofa that \<open>addObject\<close> has just added and selected.\<close>

theorem deleted_object_stays_flagged_witness:
  "selectedObject st1 = Some 0 \<and> selection_invariant st1 \<and> collection_ok st1
   \<and> selectedObject (deleteSelectedObject st1) = None
   \<and> placedObjects (deleteSelectedObject st1) = []
   \<and> isSelected (heap (deleteSelectedObject st1) 0)"
proof -
  have sel: "selectedObject st1 = Some 0" by simp
  from st1_invariants have i1: "selection_invariant st1" and i2: "collection_ok st1" by simp_all
  have po: "placedObjects (deleteSelectedObject st1) = []"
    by (simp add: deleteSelectedObject_def splice1_def)
  from deleted_object_stays_flagged [OF sel i1 i2] sel i1 i2 po show ?thesis by simp
qed


subsection \<open>Rotation steps\<close>

lemma js_rem_360:
  assumes "0 \<le> a" "a < 720"
  shows "js_rem (Fin a) (Fin 360) = Fin (if a < 360 then a else a - 360)"
proof (cases "a < 360")
  case True
  with assms have "\<lfloor>a / 360\<rfloor> = 0" by (simp add: floor_eq_iff)
  with assms True show ?thesis by (simp add: js_trunc_def)
next
  case False
  with assms have "\<lfloor>a / 360\<rfloor> = 1" by (simp add: floor_eq_iff)
  with assms False show ?thesis by (simp add: js_trunc_def)
qed

text \<open>
  One step from a rotation in \<open>[0, 360)\<close>: the sum is rounded to a double of at least 8,
  a multiple of \<open>1 / 2 ^ 49\<close>, and the remainder, which is exact, is in \<open>[0, 360)\<close>.
\<close>

lemma rotate_step_grid:
  assumes "rotation ob = Fin r" "0 \<le> r" "r < 360"
  shows "\<exists>(k::int) r'. rotation (rotate_obj ob) = Fin r' \<and> r' = of_int k / 2 ^ 49 \<and>
           0 \<le> r' \<and> r' < 360"
proof -
  let ?s = "rnd_fin (r + 10)"
  from assms(2) have s0: "0 \<le> ?s" by (simp add: rnd_fin_nonneg)
  have "(2::real) powr of_int 9 = 512" by simp
  with rnd_fin_le_power[of "r + 10" 9] assms(2,3) have s1: "?s \<le> 512" by simp
  have "(2::real) powr of_int 3 = 8" by simp
  with rnd_fin_multiple[of 3 "r + 10"] assms(2)
  obtain k :: int where "?s = of_int k * 2 powr of_int (3 - 52)" by auto
  moreover have "(2::real) powr of_int (3 - 52) = 1 / 2 ^ 49"
    using powr_neg_nat[of 49] by simp
  ultimately have k: "?s = of_int k / 2 ^ 49" by simp
  have "(512::real) < 2 ^ 1024" by simp
  with s0 s1 have "\<not> 2 ^ 1024 \<le> ?s" "\<not> ?s \<le> - (2 ^ 1024)" by linarith+
  then have sum: "fadd (Fin r) (Fin 10) = Fin ?s" by (simp add: rnd_def)
  from s0 s1 have rem: "js_rem (Fin ?s) (Fin 360) = Fin (if ?s < 360 then ?s else ?s - 360)"
    by (intro js_rem_360) simp_all
  from assms(1) sum rem have rot:
    "rotation (rotate_obj ob) = Fin (if ?s < 360 then ?s else ?s - 360)"
    by (simp add: rotate_obj_def ROTATION_INCREMENT_def)
  show ?thesis
  proof (cases "?s < 360")
    case True
    with rot k s0 show ?thesis by (intro exI[of _ k] exI[of _ ?s]) simp
  next
    case False
    have "?s - 360 = of_int (k - 360 * 2 ^ 49) / 2 ^ 49" by (simp add: k field_simps)
    with False rot s1 show ?thesis
      by (intro exI[of _ "k - 360 * 2 ^ 49"] exI[of _ "?s - 360"]) simp
  qed
qed

lemma rotate_pow_range:
  assumes "rotation ob = Fin r" "0 \<le> r" "r < 360"
  shows "\<exists>r'. rotation ((rotate_obj ^^ n) ob) = Fin r' \<and> 0 \<le> r' \<and> r' < 360"
proof (induction n)
  case 0
  from assms show ?case by simp
next
  case (Suc n)
  then obtain r' where "rotation ((rotate_obj ^^ n) ob) = Fin r'" "0 \<le> r'" "r' < 360" by blast
  from rotate_step_grid[OF this] show ?case by auto
qed

lemma rotate_pow_grid:
  assumes "rotation ob = Fin r" "0 \<le> r" "r < 360"
  shows "\<exists>k::int. rotation ((rotate_obj ^^ Suc n) ob) = Fin (of_int k / 2 ^ 49)"
proof -
  from rotate_pow_range[OF assms, of n]
  obtain r' where "rotation ((rotate_obj ^^ n) ob) = Fin r'" "0 \<le> r'" "r' < 360" by blast
  from rotate_step_grid[OF this] show ?thesis by auto
qed

text \<open>
  From a rotation that is a multiple of \<open>1 / 2 ^ 44\<close>, as every whole number of degrees
  is, the sum is a double and the step is exact.
\<close>

lemma rotate_step_exact:
  assumes "rotation ob = Fin r" "0 \<le> r" "r < 360" "r = of_int k / 2 ^ 44"
  shows "rotate_obj ob = ob\<lparr>rotation := Fin (if r + 10 < 360 then r + 10 else r + 10 - 360)\<rparr>"
proof -
  from assms(4) have rk: "r * 2 ^ 44 = of_int k" by simp
  with assms(2) have "0 \<le> real_of_int k" by (metis mult_nonneg_nonneg zero_le_numeral zero_le_power)
  then have k0: "0 \<le> k" by simp
  from assms(3) have "r * 2 ^ 44 < 360 * 2 ^ 44" by simp
  with rk have "real_of_int k < 360 * 2 ^ 44" by simp
  then have "real_of_int k < real_of_int (360 * 2 ^ 44)" by simp
  then have k1: "k < 360 * 2 ^ 44" by (simp only: of_int_less_iff)
  have e: "(r + 10) * 2 ^ 44 = of_int (k + 10 * 2 ^ 44)"
    using rk by (simp add: algebra_simps)
  from k0 k1 have b: "\<bar>k + 10 * 2 ^ 44\<bar> < 2 ^ 53" by simp
  from rnd_exact[OF e b] have sum: "fadd (Fin r) (Fin 10) = Fin (r + 10)" by simp
  from assms(2,3) have "js_rem (Fin (r + 10)) (Fin 360) =
      Fin (if r + 10 < 360 then r + 10 else r + 10 - 360)"
    by (intro js_rem_360) simp_all
  with assms(1) sum show ?thesis by (simp add: rotate_obj_def ROTATION_INCREMENT_def)
qed

lemma rotate_pow_exact:
  assumes "rotation ob = Fin r" "0 \<le> r" "r < 360" "r = of_int k / 2 ^ 44"
  shows "\<exists>j::nat. (rotate_obj ^^ n) ob = ob\<lparr>rotation := Fin (r + 10 * real n - 360 * real j)\<rparr>
       \<and> 0 \<le> r + 10 * real n - 360 * real j \<and> r + 10 * real n - 360 * real j < 360"
proof (induction n)
  case 0
  from assms show ?case by (intro exI[of _ 0]) simp
next
  case (Suc n)
  then obtain j where j: "(rotate_obj ^^ n) ob = ob\<lparr>rotation := Fin (r + 10 * real n - 360 * real j)\<rparr>"
    "0 \<le> r + 10 * real n - 360 * real j" "r + 10 * real n - 360 * real j < 360" by blast
  let ?r = "r + 10 * real n - 360 * real j"
  let ?o = "ob\<lparr>rotation := Fin ?r\<rparr>"
  have g: "?r = of_int (k + (10 * int n - 360 * int j) * 2 ^ 44) / 2 ^ 44"
    by (simp add: assms(4) field_simps)
  have "rotation ?o = Fin ?r" by simp
  from rotate_step_exact[OF this j(2,3) g]
  have step: "(rotate_obj ^^ Suc n) ob =
      ob\<lparr>rotation := Fin (if ?r + 10 < 360 then ?r + 10 else ?r + 10 - 360)\<rparr>"
    using j(1) by simp
  show ?case
  proof (cases "?r + 10 < 360")
    case True
    with step j show ?thesis by (intro exI[of _ j]) (simp add: algebra_simps)
  next
    case False
    with step j show ?thesis by (intro exI[of _ "Suc j"]) (simp add: algebra_simps)
  qed
qed

text \<open>
  Claim C6, as the code has it. For an object whose rotation lies in \<open>[0, 360)\<close>, one
  rotate step sets the rotation to \<^verbatim>\<open>(rotation + ROTATION_INCREMENT) % 360\<close> with an
  increment of 10, the sum rounded to a double; after any number \<open>n\<close> of steps the
  rotation is still in \<open>[0, 360)\<close>. When the rotation is a multiple of \<open>1 / 2 ^ 44\<close>, as
  every whole number of degrees is, the step gives exactly ten degrees more, less 360
  when that reaches 360, and 36 steps give back the object as it was.
\<close>

theorem rotate_step_cycle:
  assumes "rotation ob = Fin r" "0 \<le> r" "r < 360"
  shows "rotation (rotate_obj ob) = js_rem (fadd (rotation ob) ROTATION_INCREMENT) (Fin 360)
       \<and> ROTATION_INCREMENT = Fin 10
       \<and> (\<exists>r'. rotation ((rotate_obj ^^ n) ob) = Fin r' \<and> 0 \<le> r' \<and> r' < 360)
       \<and> ((\<exists>k::int. r = of_int k / 2 ^ 44) \<longrightarrow>
            rotation (rotate_obj ob) = Fin (if r + 10 < 360 then r + 10 else r + 10 - 360)
          \<and> (rotate_obj ^^ 36) ob = ob)"
proof -
  have r1: "rotation (rotate_obj ob) = js_rem (fadd (rotation ob) ROTATION_INCREMENT) (Fin 360)"
    by (simp add: rotate_obj_def)
  have inc: "ROTATION_INCREMENT = Fin 10"
    by (simp add: ROTATION_INCREMENT_def)
  note rng = rotate_pow_range[OF assms, of n]
  have ex: "rotation (rotate_obj ob) = Fin (if r + 10 < 360 then r + 10 else r + 10 - 360)
          \<and> (rotate_obj ^^ 36) ob = ob" if "\<exists>k::int. r = of_int k / 2 ^ 44"
  proof -
    from that obtain k :: int where k: "r = of_int k / 2 ^ 44" by blast
    from rotate_step_exact[OF assms k]
    have one: "rotation (rotate_obj ob) = Fin (if r + 10 < 360 then r + 10 else r + 10 - 360)"
      by simp
    obtain j where j: "(rotate_obj ^^ 36) ob = ob\<lparr>rotation := Fin (r + 10 * real 36 - 360 * real j)\<rparr>"
      "0 \<le> r + 10 * real 36 - 360 * real j" "r + 10 * real 36 - 360 * real j < 360"
      using rotate_pow_exact[OF assms k, of 36] by blast
    from j(2,3) assms(2,3) have "real j < 2" "0 < real j" by simp_all
    then have j1: "j = 1" by linarith
    have "ob\<lparr>rotation := Fin (r + 10 * real 36 - 360 * real (1::nat))\<rparr> = ob"
      using assms(1) by simp
    with j(1) j1 have "(rotate_obj ^^ 36) ob = ob" by metis
    with one show ?thesis by blast
  qed
  from r1 inc rng ex show ?thesis by blast
qed

text \<open>
  A freshly built object: one step from 0 gives 10, and 36 steps give the object back.
  The sofa at \<^verbatim>\<open>0.1\<close> degrees is still within \<open>[0, 360)\<close> after 36 steps.
\<close>

theorem rotate_step_cycle_witness:
  "rotation sofa = Fin 0 \<and> (0::real) \<le> 0 \<and> (0::real) < 360 \<and> (0::real) = of_int 0 / 2 ^ 44
   \<and> rotation (rotate_obj sofa) = Fin 10
   \<and> (rotate_obj ^^ 36) sofa = sofa
   \<and> (\<exists>r'. rotation ((rotate_obj ^^ 36) tilted) = Fin r' \<and> 0 \<le> r' \<and> r' < 360)"
proof -
  have r0: "rotation sofa = Fin 0" by simp
  have h1: "(0::real) \<le> 0" and h2: "(0::real) < 360" by simp_all
  have g: "\<exists>k::int. (0::real) = of_int k / 2 ^ 44" by (intro exI[of _ 0]) simp
  note th = rotate_step_cycle [OF r0 h1 h2, of 0]
  from th g have "rotation (rotate_obj sofa) =
       Fin (if (0::real) + 10 < 360 then 0 + 10 else 0 + 10 - 360)"
    by blast
  then have a: "rotation (rotate_obj sofa) = Fin 10" by simp
  from th g have b: "(rotate_obj ^^ 36) sofa = sofa" by blast
  have t0: "rotation tilted = Fin (3602879701896397 / 2 ^ 55)" by (simp add: tilted_def)
  have t1: "(0::real) \<le> 3602879701896397 / 2 ^ 55" by simp
  have t2: "(3602879701896397 / 2 ^ 55 :: real) < 360" by simp
  note tt = rotate_step_cycle [OF t0 t1 t2, of 36]
  from tt have c: "\<exists>r'. rotation ((rotate_obj ^^ 36) tilted) = Fin r' \<and> 0 \<le> r' \<and> r' < 360"
    by blast
  from r0 a b c show ?thesis by simp
qed

text \<open>
  The sofa at \<^verbatim>\<open>0.1\<close> degrees, a rotation within \<open>[0, 360)\<close>: one step does not give
  that rotation plus ten, and 36 steps do not give back the object. After the first step
  every rotation is a multiple of \<open>1 / 2 ^ 49\<close>, which \<^verbatim>\<open>0.1\<close> and its sum with 10 are
  not.
\<close>

theorem rotate_rounding_counterexample:
  "rotation tilted = Fin (3602879701896397 / 2 ^ 55)
   \<and> (0::real) \<le> 3602879701896397 / 2 ^ 55 \<and> (3602879701896397 / 2 ^ 55 :: real) < 360
   \<and> rotation (rotate_obj tilted) \<noteq> Fin (3602879701896397 / 2 ^ 55 + 10)
   \<and> (rotate_obj ^^ 36) tilted \<noteq> tilted"
proof -
  have t0: "rotation tilted = Fin (3602879701896397 / 2 ^ 55)" by (simp add: tilted_def)
  have t1: "(0::real) \<le> 3602879701896397 / 2 ^ 55" by simp
  have t2: "(3602879701896397 / 2 ^ 55 :: real) < 360" by simp
  have odd1: "real_of_int k / 2 ^ 49 \<noteq> 3602879701896397 / 2 ^ 55" for k :: int
  proof
    assume "real_of_int k / 2 ^ 49 = 3602879701896397 / 2 ^ 55"
    then have "real_of_int k * 64 = 3602879701896397" by (simp add: field_simps)
    then have "real_of_int (k * 64) = real_of_int 3602879701896397" by simp
    then have "k * 64 = 3602879701896397" by (simp only: of_int_eq_iff)
    then show False by presburger
  qed
  have odd2: "real_of_int k / 2 ^ 49 \<noteq> 3602879701896397 / 2 ^ 55 + 10" for k :: int
  proof
    assume "real_of_int k / 2 ^ 49 = 3602879701896397 / 2 ^ 55 + 10"
    then have "real_of_int k * 64 = 3602879701896397 + 10 * 2 ^ 55" by (simp add: field_simps)
    then have "real_of_int (k * 64) = real_of_int (3602879701896397 + 10 * 2 ^ 55)" by simp
    then have "k * 64 = 3602879701896397 + 10 * 2 ^ 55" by (simp only: of_int_eq_iff)
    then show False by presburger
  qed
  from rotate_pow_grid[OF t0 t1 t2, of 0]
  obtain k :: int where "rotation (rotate_obj tilted) = Fin (of_int k / 2 ^ 49)" by auto
  with odd2[of k] have a: "rotation (rotate_obj tilted) \<noteq> Fin (3602879701896397 / 2 ^ 55 + 10)"
    by simp
  have "(36::nat) = Suc 35" by simp
  with rotate_pow_grid[OF t0 t1 t2, of 35]
  obtain j :: int where "rotation ((rotate_obj ^^ 36) tilted) = Fin (of_int j / 2 ^ 49)"
    by metis
  with odd1[of j] t0 have "rotation ((rotate_obj ^^ 36) tilted) \<noteq> rotation tilted" by simp
  then have b: "(rotate_obj ^^ 36) tilted \<noteq> tilted" by metis
  from t0 t1 t2 a b show ?thesis by blast
qed


subsection \<open>Moving within the room\<close>

lemma rad_per_degree: "fdiv Math_PI (Fin 180) = Fin (5030569068109113 / 2 ^ 58)"
proof -
  have "rnd (884279719003555 / 2 ^ 48 / 180) = Fin (of_int 5030569068109113 / 2 ^ 58)"
    by (rule rnd_near) simp_all
  then show ?thesis by (simp add: Math_PI_def)
qed

lemma degreesToRadians_0 [simp]: "degreesToRadians (Fin 0) = Fin 0"
  by (simp add: degreesToRadians_def rad_per_degree)


lemma projected_setPosition [simp]:
  "projectedWidth M (setPosition ob x y) = projectedWidth M ob"
  "projectedHeight M (setPosition ob x y) = projectedHeight M ob"
  by (simp_all add: projectedWidth_def projectedHeight_def setPosition_def)

lemma setPosition_fields [simp]:
  "obj_x (setPosition ob x y) = x" "obj_y (setPosition ob x y) = y"
  by (simp_all add: setPosition_def)


























subsection \<open>Selecting by position\<close>

lemma hitTest_eq:
  "hitTest M ob x y =
     (let w = widthPixels ob; h = lengthPixels ob;
          rx = fsub (ToNumber (obj_x ob)) (fdiv w (Fin 2));
          ry = fsub (ToNumber (obj_y ob)) (fdiv h (Fin 2));
          a = js_neg (fmul (rotation ob) (fdiv Math_PI (Fin 180)));
          cx = fadd rx (fdiv w (Fin 2)); cy = fadd ry (fdiv h (Fin 2));
          tx = fsub x cx; ty = fsub y cy;
          fx = fadd (fsub (fmul tx (Math_cos M a)) (fmul ty (Math_sin M a))) cx;
          fy = fadd (fadd (fmul tx (Math_sin M a)) (fmul ty (Math_cos M a))) cy
      in js_ge fx rx \<and> js_le fx (fadd rx w) \<and> js_ge fy ry \<and> js_le fy (fadd ry h))"
  by (simp add: hitTest_def getPixelDimensions_def isPointInRotatedRectangle_def
      degreesToRadians_def Let_def)

text \<open>
  Claim C3. \<open>selectObjectAt s x y\<close> returns the object at the highest index of the
  collection that passes the rotated-rectangle test, and \<^verbatim>\<open>null\<close> when no object passes.
  The test takes the rectangle of the object's pixel size around its centre and turns the
  point about that centre by the opposite of the object's rotation, with the engine's
  cosine and sine and in double arithmetic; the point passes when the turned point is
  within the rectangle. The state is that of \<open>selectObject\<close> on the returned value: the
  returned value is the selection, it is flagged, an earlier selection that differs from
  it is unflagged, every other flag and the collection are as before, and the selection
  invariant is kept. The notification is emitted once in every case: the callback, when
  one is registered, is invoked once.
\<close>

theorem selectObjectAt_topmost:
  "(case snd (selectObjectAt s x y) of
      None \<Rightarrow> \<forall>i < length (placedObjects s). \<not> hitTest (math s) (heap s (placedObjects s ! i)) x y
    | Some r \<Rightarrow>
        \<exists>i < length (placedObjects s).
          placedObjects s ! i = r \<and> hitTest (math s) (heap s r) x y \<and>
          (\<forall>j. i < j \<and> j < length (placedObjects s) \<longrightarrow>
               \<not> hitTest (math s) (heap s (placedObjects s ! j)) x y))
   \<and> (\<forall>ob. hitTest (math s) ob x y =
         (let w = widthPixels ob; h = lengthPixels ob;
              rx = fsub (ToNumber (obj_x ob)) (fdiv w (Fin 2));
              ry = fsub (ToNumber (obj_y ob)) (fdiv h (Fin 2));
              a = js_neg (fmul (rotation ob) (fdiv Math_PI (Fin 180)));
              cx = fadd rx (fdiv w (Fin 2)); cy = fadd ry (fdiv h (Fin 2));
              tx = fsub x cx; ty = fsub y cy;
              fx = fadd (fsub (fmul tx (Math_cos (math s) a)) (fmul ty (Math_sin (math s) a))) cx;
              fy = fadd (fadd (fmul tx (Math_sin (math s) a)) (fmul ty (Math_cos (math s) a))) cy
          in js_ge fx rx \<and> js_le fx (fadd rx w) \<and> js_ge fy ry \<and> js_le fy (fadd ry h)))
   \<and> fst (selectObjectAt s x y) = selectObject s (snd (selectObjectAt s x y))
   \<and> selectedObject (fst (selectObjectAt s x y)) = snd (selectObjectAt s x y)
   \<and> placedObjects (fst (selectObjectAt s x y)) = placedObjects s
   \<and> (\<forall>q. heap (fst (selectObjectAt s x y)) q =
         (heap s q)\<lparr>isSelected :=
            (if snd (selectObjectAt s x y) = Some q then True
             else if selectedObject s = Some q then False
             else isSelected (heap s q))\<rparr>)
   \<and> (selection_invariant s \<longrightarrow> selection_invariant (fst (selectObjectAt s x y)))
   \<and> calls (fst (selectObjectAt s x y)) = (if onChangeCallback s then calls s + 1 else calls s)"
proof -
  let ?f = "scanFrom (math s) (heap s) (placedObjects s) x y (length (placedObjects s))"
  have res: "selectObjectAt s x y = (selectObject s ?f, ?f)"
    by (simp add: selectObjectAt_def Let_def)
  have found: "(case ?f of
      None \<Rightarrow> \<forall>i < length (placedObjects s). \<not> hitTest (math s) (heap s (placedObjects s ! i)) x y
    | Some r \<Rightarrow>
        \<exists>i < length (placedObjects s).
          placedObjects s ! i = r \<and> hitTest (math s) (heap s r) x y \<and>
          (\<forall>j. i < j \<and> j < length (placedObjects s) \<longrightarrow>
               \<not> hitTest (math s) (heap s (placedObjects s ! j)) x y))"
  proof (cases ?f)
    case None
    with scanFrom_None[of "math s" "heap s" "placedObjects s" x y "length (placedObjects s)"]
    show ?thesis by simp
  next
    case (Some r)
    with scanFrom_Some[of "math s" "heap s" "placedObjects s" x y "length (placedObjects s)" r]
    show ?thesis by simp
  qed
  have inv: "selection_invariant s \<longrightarrow> selection_invariant (fst (selectObjectAt s x y))"
    using selectObjectAt_invariant by blast
  have test: "\<forall>ob. hitTest (math s) ob x y =
         (let w = widthPixels ob; h = lengthPixels ob;
              rx = fsub (ToNumber (obj_x ob)) (fdiv w (Fin 2));
              ry = fsub (ToNumber (obj_y ob)) (fdiv h (Fin 2));
              a = js_neg (fmul (rotation ob) (fdiv Math_PI (Fin 180)));
              cx = fadd rx (fdiv w (Fin 2)); cy = fadd ry (fdiv h (Fin 2));
              tx = fsub x cx; ty = fsub y cy;
              fx = fadd (fsub (fmul tx (Math_cos (math s) a)) (fmul ty (Math_sin (math s) a))) cx;
              fy = fadd (fadd (fmul tx (Math_sin (math s) a)) (fmul ty (Math_cos (math s) a))) cy
          in js_ge fx rx \<and> js_le fx (fadd rx w) \<and> js_ge fy ry \<and> js_le fy (fadd ry h))"
    using hitTest_eq by blast
  have rest: "fst (selectObjectAt s x y) = selectObject s (snd (selectObjectAt s x y))
   \<and> selectedObject (fst (selectObjectAt s x y)) = snd (selectObjectAt s x y)
   \<and> placedObjects (fst (selectObjectAt s x y)) = placedObjects s
   \<and> (\<forall>q. heap (fst (selectObjectAt s x y)) q =
         (heap s q)\<lparr>isSelected :=
            (if snd (selectObjectAt s x y) = Some q then True
             else if selectedObject s = Some q then False
             else isSelected (heap s q))\<rparr>)
   \<and> calls (fst (selectObjectAt s x y)) = (if onChangeCallback s then calls s + 1 else calls s)"
    unfolding res by (simp add: heap_selectObject calls_selectObject)
  from found have found': "(case snd (selectObjectAt s x y) of
      None \<Rightarrow> \<forall>i < length (placedObjects s). \<not> hitTest (math s) (heap s (placedObjects s ! i)) x y
    | Some r \<Rightarrow>
        \<exists>i < length (placedObjects s).
          placedObjects s ! i = r \<and> hitTest (math s) (heap s r) x y \<and>
          (\<forall>j. i < j \<and> j < length (placedObjects s) \<longrightarrow>
               \<not> hitTest (math s) (heap s (placedObjects s ! j)) x y))"
    unfolding res by simp
  from found' test rest inv show ?thesis by blast
qed


lemma rnd_quarter_turn: "rnd (90 * (5030569068109113 / 2 ^ 58)) = Fin (884279719003555 / 2 ^ 49)"
proof -
  have "rnd (90 * (5030569068109113 / 2 ^ 58)) = Fin (of_int (7074237752028440) / 2 ^ 52)"
    by (rule rnd_near) simp_all
  then show ?thesis by simp
qed

lemma rnd_128_cos: "rnd (128 * (4967757600021511 / 2 ^ 106)) = Fin (4967757600021511 / 2 ^ 99)"
proof -
  have "rnd (128 * (4967757600021511 / 2 ^ 106)) = Fin (128 * (4967757600021511 / 2 ^ 106))"
    by (rule rnd_exact[of _ 99 "4967757600021511"]) simp_all
  then show ?thesis by simp
qed

lemma rnd_256_cos: "rnd (256 * (4967757600021511 / 2 ^ 106)) = Fin (4967757600021511 / 2 ^ 98)"
proof -
  have "rnd (256 * (4967757600021511 / 2 ^ 106)) = Fin (256 * (4967757600021511 / 2 ^ 106))"
    by (rule rnd_exact[of _ 98 "4967757600021511"]) simp_all
  then show ?thesis by simp
qed

lemma rnd_128_cos_300: "rnd (4967757600021511 / 2 ^ 99 + 300) = Fin (300)"
proof -
  have "rnd (4967757600021511 / 2 ^ 99 + 300) = Fin (of_int (5277655813324800) / 2 ^ 44)"
    by (rule rnd_near) simp_all
  then show ?thesis by simp
qed

lemma rnd_256_cos_300: "rnd (4967757600021511 / 2 ^ 98 + 300) = Fin (300)"
proof -
  have "rnd (4967757600021511 / 2 ^ 98 + 300) = Fin (of_int (5277655813324800) / 2 ^ 44)"
    by (rule rnd_near) simp_all
  then show ?thesis by simp
qed

lemma rnd_128_cos_400: "rnd (4967757600021511 / 2 ^ 99 + 400) = Fin (400)"
proof -
  have "rnd (4967757600021511 / 2 ^ 99 + 400) = Fin (of_int (7036874417766400) / 2 ^ 44)"
    by (rule rnd_near) simp_all
  then show ?thesis by simp
qed

lemma rnd_128_cos_again: "rnd (4967757600021511 / 2 ^ 99) = Fin (4967757600021511 / 2 ^ 99)"
proof -
  have "rnd (4967757600021511 / 2 ^ 99) = Fin (4967757600021511 / 2 ^ 99)"
    by (rule rnd_exact[of _ 99 "4967757600021511"]) simp_all
  then show ?thesis by simp
qed

lemma rnd_256_cos_again: "rnd (4967757600021511 / 2 ^ 98) = Fin (4967757600021511 / 2 ^ 98)"
proof -
  have "rnd (4967757600021511 / 2 ^ 98) = Fin (4967757600021511 / 2 ^ 98)"
    by (rule rnd_exact[of _ 98 "4967757600021511"]) simp_all
  then show ?thesis by simp
qed

text \<open>The tests of the two sofas of \<open>stR\<close> at three points.\<close>

lemma sofaR_fields [simp]:
  "widthPixels sofaR = Fin 350" "lengthPixels sofaR = Fin 175" "rotation sofaR = Fin 90"
  "obj_x sofaR = Number (Fin 400)" "obj_y sofaR = Number (Fin 300)" "uniqueId sofaR = 1"
  "\<not> isSelected sofaR"
  by (simp_all add: sofaR_def sofaDef_def)

lemma quarter_turn:
  "js_neg (fmul (Fin 90) (fdiv Math_PI (Fin 180))) = Fin (- (884279719003555 / 2 ^ 49))"
  using rnd_quarter_turn by (simp add: rad_per_degree)

lemma engine0_quarter_turn:
  "cos_of engine0 (- (884279719003555 / 2 ^ 49)) = 4967757600021511 / 2 ^ 106"
  "sin_of engine0 (- (884279719003555 / 2 ^ 49)) = - 1"
  "cos_of engine0 (884279719003555 / 2 ^ 49) = 4967757600021511 / 2 ^ 106"
  "sin_of engine0 (884279719003555 / 2 ^ 49) = 1"
  by (simp_all add: engine0_def)

lemma no_turn:
  "js_neg (fmul (Fin 0) (fdiv Math_PI (Fin 180))) = Fin 0"
  by (simp add: rad_per_degree)

lemma hitTest_sofaR_above: "hitTest engine0 (sofaR\<lparr>isSelected := b\<rparr>) (Fin 400) (Fin 428)"
  using rnd_128_cos rnd_128_cos_again rnd_128_cos_300
  by (simp add: hitTest_eq quarter_turn fsub_def Let_def engine0_def)

lemma hitTest_sofaR_beside: "\<not> hitTest engine0 (sofaR\<lparr>isSelected := b\<rparr>) (Fin 528) (Fin 300)"
  using rnd_128_cos rnd_128_cos_again rnd_128_cos_400
  by (simp add: hitTest_eq quarter_turn fsub_def Let_def engine0_def)

lemma hitTest_sofaR_far: "\<not> hitTest engine0 (sofaR\<lparr>isSelected := b\<rparr>) (Fin 400) (Fin 556)"
  using rnd_256_cos rnd_256_cos_again rnd_256_cos_300
  by (simp add: hitTest_eq quarter_turn fsub_def Let_def engine0_def)

lemma hitTest_sofa_above: "\<not> hitTest engine0 (sofa\<lparr>isSelected := b\<rparr>) (Fin 400) (Fin 428)"
  by (simp add: hitTest_eq no_turn fsub_def Let_def)

lemma hitTest_sofa_beside: "hitTest engine0 (sofa\<lparr>isSelected := b\<rparr>) (Fin 528) (Fin 300)"
  by (simp add: hitTest_eq no_turn fsub_def Let_def)

lemma hitTest_sofa_far: "\<not> hitTest engine0 (sofa\<lparr>isSelected := b\<rparr>) (Fin 400) (Fin 556)"
  by (simp add: hitTest_eq no_turn fsub_def Let_def)


lemma hitTest_sofaR_centre: "hitTest engine0 (sofaR\<lparr>isSelected := b\<rparr>) (Fin 400) (Fin 300)"
  by (simp add: hitTest_eq quarter_turn fsub_def Let_def engine0_def)

lemma stR_fields [simp]:
  "math stR = engine0"
  "heap stR 0 = sofa\<lparr>isSelected := False\<rparr>" "heap stR 1 = sofaR\<lparr>isSelected := True\<rparr>"
  "heap stR (Suc 0) = sofaR\<lparr>isSelected := True\<rparr>"
  "placedObjects stR = [0, 1]" "selectedObject stR = Some 1" "onChangeCallback stR"
  "calls stR = 13"
  by (simp_all add: stR_def)

lemma stR_invariants: "selection_invariant stR \<and> collection_ok stR"
  by (simp add: selection_invariant_def collection_ok_def stR_def)

lemma rotate_whole:
  assumes "rotation ob = Fin (of_int k)" "0 \<le> k" "k < 350"
  shows "rotate_obj ob = ob\<lparr>rotation := Fin (of_int (k + 10))\<rparr>"
proof -
  have g: "real_of_int k = of_int (k * 2 ^ 44) / 2 ^ 44" by simp
  from assms(2,3) have "0 \<le> real_of_int k" "real_of_int k < 360" by simp_all
  from rotate_step_exact[OF assms(1) this g] assms(3) show ?thesis by simp
qed

lemma run_append: "run s (xs @ ys) = run (run s xs) ys"
  by (induction xs arbitrary: s) simp_all

lemma run_rotations:
  assumes "selectedObject s = Some r" "onChangeCallback s" "rotation (heap s r) = Fin 0"
    "n \<le> 35"
  shows "run s (replicate n RotateSelectedObject) =
           s\<lparr>heap := (heap s)(r := (heap s r)\<lparr>rotation := Fin (10 * real n)\<rparr>),
             calls := calls s + n\<rparr>"
  using assms(4)
proof (induction n)
  case 0
  have "(heap s r)\<lparr>rotation := Fin 0\<rparr> = heap s r" using assms(3) by simp
  then show ?case by simp
next
  case (Suc n)
  let ?ob = "(heap s r)\<lparr>rotation := Fin (10 * real n)\<rparr>"
  let ?s = "s\<lparr>heap := (heap s)(r := ?ob), calls := calls s + n\<rparr>"
  from Suc.prems have "n \<le> 35" by simp
  from Suc.IH[OF this] have ih: "run s (replicate n RotateSelectedObject) = ?s" .
  have "rotation ?ob = Fin (of_int (10 * int n))" by simp
  moreover from Suc.prems have "0 \<le> 10 * int n" "10 * int n < 350" by simp_all
  ultimately have "rotate_obj ?ob = ?ob\<lparr>rotation := Fin (of_int (10 * int n + 10))\<rparr>"
    by (rule rotate_whole)
  then have rot: "rotate_obj ?ob = (heap s r)\<lparr>rotation := Fin (10 * real (Suc n))\<rparr>"
    by (simp add: algebra_simps)
  have "replicate (Suc n) RotateSelectedObject =
      replicate n RotateSelectedObject @ [RotateSelectedObject]"
    by (simp add: replicate_append_same)
  then have "run s (replicate (Suc n) RotateSelectedObject) =
      run (run s (replicate n RotateSelectedObject)) [RotateSelectedObject]"
    by (simp only: run_append)
  also have "\<dots> = rotateSelectedObject ?s"
    by (simp only: ih run.simps apply_operation.simps)
  also have "\<dots> = s\<lparr>heap := (heap s)(r := (heap s r)\<lparr>rotation := Fin (10 * real (Suc n))\<rparr>),
             calls := calls s + Suc n\<rparr>"
    using assms(1,2) rot by (simp add: rotateSelectedObject_def notifyChange_def)
  finally show ?case .
qed

lemma stR_reached:
  "run st0 [AddObject (Some sofaDef) (Fin 400) (Fin 300),
            AddObject (Some sofaDef) (Fin 400) (Fin 300),
            RotateSelectedObject, RotateSelectedObject, RotateSelectedObject,
            RotateSelectedObject, RotateSelectedObject, RotateSelectedObject,
            RotateSelectedObject, RotateSelectedObject, RotateSelectedObject] = stR"
proof -
  let ?a = "fst (addObject st1 (Some sofaDef) (Fin 400) (Fin 300))"
  have a: "?a = \<lparr>math = engine0,
          heap = (\<lambda>a. blank)(0 := sofa\<lparr>isSelected := False\<rparr>,
                   1 := (PlacedObject_new 1 sofaDef (Number (Fin 400)) (Number (Fin 300))
                           (Fin 175))\<lparr>isSelected := True\<rparr>),
          objectCounter = 2, room = room54, placedObjects = [0, 1], selectedObject = Some 1,
          onChangeCallback = True, calls = 4\<rparr>"
    by (simp add: addObject_def sofaDef_def Let_def selectObject_def notifyChange_def st1_def
        room54_def fun_upd_twist)
  have l: "[AddObject (Some sofaDef) (Fin 400) (Fin 300),
            AddObject (Some sofaDef) (Fin 400) (Fin 300),
            RotateSelectedObject, RotateSelectedObject, RotateSelectedObject,
            RotateSelectedObject, RotateSelectedObject, RotateSelectedObject,
            RotateSelectedObject, RotateSelectedObject, RotateSelectedObject] =
        [AddObject (Some sofaDef) (Fin 400) (Fin 300),
         AddObject (Some sofaDef) (Fin 400) (Fin 300)] @ replicate 9 RotateSelectedObject"
    by (simp add: numeral_eq_Suc)
  have two: "run st0 [AddObject (Some sofaDef) (Fin 400) (Fin 300),
         AddObject (Some sofaDef) (Fin 400) (Fin 300)] = ?a"
    by (simp add: addObject_sofa)
  have sel: "selectedObject ?a = Some 1" "onChangeCallback ?a" "rotation (heap ?a 1) = Fin 0"
    by (simp_all add: a)
  have n: "(9::nat) \<le> 35" by simp
  have "run ?a (replicate 9 RotateSelectedObject) =
      ?a\<lparr>heap := (heap ?a)(1 := (heap ?a 1)\<lparr>rotation := Fin (10 * real 9)\<rparr>),
         calls := calls ?a + 9\<rparr>"
    by (rule run_rotations[OF sel n])
  also have "\<dots> = stR"
    by (simp add: a stR_def sofaR_def PlacedObject_new_def updateScale_def)
  finally have "run ?a (replicate 9 RotateSelectedObject) = stR" .
  with two show ?thesis unfolding l run_append by simp
qed

text \<open>
  Two sofas on the same centre, the upper one turned by a quarter and selected. A point on
  both selects the upper one. A point above the centre is on the upper sofa only because
  that sofa is turned, and selects it. A point beside the centre would be on the upper
  sofa if it were not turned; it is on the lower sofa, which is selected, and the upper
  one is unflagged. A point on neither clears the selection. The callback is invoked once
  each time.
\<close>

theorem selectObjectAt_topmost_witness:
  "run st0 [AddObject (Some sofaDef) (Fin 400) (Fin 300),
            AddObject (Some sofaDef) (Fin 400) (Fin 300),
            RotateSelectedObject, RotateSelectedObject, RotateSelectedObject,
            RotateSelectedObject, RotateSelectedObject, RotateSelectedObject,
            RotateSelectedObject, RotateSelectedObject, RotateSelectedObject] = stR
   \<and> rotation (heap stR 0) = Fin 0 \<and> rotation (heap stR 1) = Fin 90
   \<and> selection_invariant stR
   \<and> snd (selectObjectAt stR (Fin 400) (Fin 300)) = Some 1
   \<and> snd (selectObjectAt stR (Fin 400) (Fin 428)) = Some 1
   \<and> selectedObject (fst (selectObjectAt stR (Fin 400) (Fin 428))) = Some 1
   \<and> calls (fst (selectObjectAt stR (Fin 400) (Fin 428))) = 14
   \<and> snd (selectObjectAt stR (Fin 528) (Fin 300)) = Some 0
   \<and> selectedObject (fst (selectObjectAt stR (Fin 528) (Fin 300))) = Some 0
   \<and> isSelected (heap (fst (selectObjectAt stR (Fin 528) (Fin 300))) 0)
   \<and> \<not> isSelected (heap (fst (selectObjectAt stR (Fin 528) (Fin 300))) 1)
   \<and> selection_invariant (fst (selectObjectAt stR (Fin 528) (Fin 300)))
   \<and> calls (fst (selectObjectAt stR (Fin 528) (Fin 300))) = 14
   \<and> snd (selectObjectAt stR (Fin 400) (Fin 556)) = None
   \<and> selectedObject (fst (selectObjectAt stR (Fin 400) (Fin 556))) = None
   \<and> \<not> isSelected (heap (fst (selectObjectAt stR (Fin 400) (Fin 556))) 1)
   \<and> selection_invariant (fst (selectObjectAt stR (Fin 400) (Fin 556)))
   \<and> calls (fst (selectObjectAt stR (Fin 400) (Fin 556))) = 14"
proof -
  from stR_invariants have inv: "selection_invariant stR" by simp
  have rots: "rotation (heap stR 0) = Fin 0" "rotation (heap stR 1) = Fin 90" by simp_all
  note t0 = selectObjectAt_topmost [of stR "Fin 400" "Fin 300"]
  note t1 = selectObjectAt_topmost [of stR "Fin 400" "Fin 428"]
  note t2 = selectObjectAt_topmost [of stR "Fin 528" "Fin 300"]
  note t3 = selectObjectAt_topmost [of stR "Fin 400" "Fin 556"]
  have both: "snd (selectObjectAt stR (Fin 400) (Fin 300)) = Some 1"
  proof -
    from t0 have "case snd (selectObjectAt stR (Fin 400) (Fin 300)) of
      None \<Rightarrow> \<forall>i < length (placedObjects stR).
                \<not> hitTest (math stR) (heap stR (placedObjects stR ! i)) (Fin 400) (Fin 300)
    | Some r \<Rightarrow>
        \<exists>i < length (placedObjects stR).
          placedObjects stR ! i = r \<and> hitTest (math stR) (heap stR r) (Fin 400) (Fin 300) \<and>
          (\<forall>j. i < j \<and> j < length (placedObjects stR) \<longrightarrow>
               \<not> hitTest (math stR) (heap stR (placedObjects stR ! j)) (Fin 400) (Fin 300))"
      by blast
    then show ?thesis
      by (cases "snd (selectObjectAt stR (Fin 400) (Fin 300))")
        (auto simp: less_Suc_eq hitTest_sofaR_centre)
  qed
  have upper: "snd (selectObjectAt stR (Fin 400) (Fin 428)) = Some 1"
  proof -
    from t1 have "case snd (selectObjectAt stR (Fin 400) (Fin 428)) of
      None \<Rightarrow> \<forall>i < length (placedObjects stR).
                \<not> hitTest (math stR) (heap stR (placedObjects stR ! i)) (Fin 400) (Fin 428)
    | Some r \<Rightarrow>
        \<exists>i < length (placedObjects stR).
          placedObjects stR ! i = r \<and> hitTest (math stR) (heap stR r) (Fin 400) (Fin 428) \<and>
          (\<forall>j. i < j \<and> j < length (placedObjects stR) \<longrightarrow>
               \<not> hitTest (math stR) (heap stR (placedObjects stR ! j)) (Fin 400) (Fin 428))"
      by blast
    then show ?thesis
      by (cases "snd (selectObjectAt stR (Fin 400) (Fin 428))")
        (auto simp: less_Suc_eq hitTest_sofaR_above hitTest_sofa_above)
  qed
  have lower: "snd (selectObjectAt stR (Fin 528) (Fin 300)) = Some 0"
  proof -
    from t2 have "case snd (selectObjectAt stR (Fin 528) (Fin 300)) of
      None \<Rightarrow> \<forall>i < length (placedObjects stR).
                \<not> hitTest (math stR) (heap stR (placedObjects stR ! i)) (Fin 528) (Fin 300)
    | Some r \<Rightarrow>
        \<exists>i < length (placedObjects stR).
          placedObjects stR ! i = r \<and> hitTest (math stR) (heap stR r) (Fin 528) (Fin 300) \<and>
          (\<forall>j. i < j \<and> j < length (placedObjects stR) \<longrightarrow>
               \<not> hitTest (math stR) (heap stR (placedObjects stR ! j)) (Fin 528) (Fin 300))"
      by blast
    then show ?thesis
      by (cases "snd (selectObjectAt stR (Fin 528) (Fin 300))")
        (auto simp: less_Suc_eq hitTest_sofaR_beside hitTest_sofa_beside)
  qed
  have miss: "snd (selectObjectAt stR (Fin 400) (Fin 556)) = None"
  proof -
    from t3 have "case snd (selectObjectAt stR (Fin 400) (Fin 556)) of
      None \<Rightarrow> \<forall>i < length (placedObjects stR).
                \<not> hitTest (math stR) (heap stR (placedObjects stR ! i)) (Fin 400) (Fin 556)
    | Some r \<Rightarrow>
        \<exists>i < length (placedObjects stR).
          placedObjects stR ! i = r \<and> hitTest (math stR) (heap stR r) (Fin 400) (Fin 556) \<and>
          (\<forall>j. i < j \<and> j < length (placedObjects stR) \<longrightarrow>
               \<not> hitTest (math stR) (heap stR (placedObjects stR ! j)) (Fin 400) (Fin 556))"
      by blast
    then show ?thesis
      by (cases "snd (selectObjectAt stR (Fin 400) (Fin 556))")
        (auto simp: less_Suc_eq hitTest_sofaR_far hitTest_sofa_far)
  qed
  from t1 have "selectedObject (fst (selectObjectAt stR (Fin 400) (Fin 428))) =
      snd (selectObjectAt stR (Fin 400) (Fin 428))"
    by blast
  with upper have a1: "selectedObject (fst (selectObjectAt stR (Fin 400) (Fin 428))) = Some 1"
    by simp
  from t1 have "calls (fst (selectObjectAt stR (Fin 400) (Fin 428))) =
      (if onChangeCallback stR then calls stR + 1 else calls stR)" by blast
  then have a2: "calls (fst (selectObjectAt stR (Fin 400) (Fin 428))) = 14" by simp
  from t2 have "selectedObject (fst (selectObjectAt stR (Fin 528) (Fin 300))) =
      snd (selectObjectAt stR (Fin 528) (Fin 300))"
    by blast
  with lower have b1: "selectedObject (fst (selectObjectAt stR (Fin 528) (Fin 300))) = Some 0"
    by simp
  from t2 have hp: "\<forall>q. heap (fst (selectObjectAt stR (Fin 528) (Fin 300))) q =
         (heap stR q)\<lparr>isSelected :=
            (if snd (selectObjectAt stR (Fin 528) (Fin 300)) = Some q then True
             else if selectedObject stR = Some q then False
             else isSelected (heap stR q))\<rparr>" by blast
  from hp lower have b2: "isSelected (heap (fst (selectObjectAt stR (Fin 528) (Fin 300))) 0)"
    by simp
  from hp lower have b3: "\<not> isSelected (heap (fst (selectObjectAt stR (Fin 528) (Fin 300))) 1)"
    by simp
  from t2 inv have b4: "selection_invariant (fst (selectObjectAt stR (Fin 528) (Fin 300)))"
    by blast
  from t2 have "calls (fst (selectObjectAt stR (Fin 528) (Fin 300))) =
      (if onChangeCallback stR then calls stR + 1 else calls stR)" by blast
  then have b5: "calls (fst (selectObjectAt stR (Fin 528) (Fin 300))) = 14" by simp
  from t3 have "selectedObject (fst (selectObjectAt stR (Fin 400) (Fin 556))) =
      snd (selectObjectAt stR (Fin 400) (Fin 556))"
    by blast
  with miss have c1: "selectedObject (fst (selectObjectAt stR (Fin 400) (Fin 556))) = None"
    by simp
  from t3 have "\<forall>q. heap (fst (selectObjectAt stR (Fin 400) (Fin 556))) q =
         (heap stR q)\<lparr>isSelected :=
            (if snd (selectObjectAt stR (Fin 400) (Fin 556)) = Some q then True
             else if selectedObject stR = Some q then False
             else isSelected (heap stR q))\<rparr>" by blast
  with miss have c2: "\<not> isSelected (heap (fst (selectObjectAt stR (Fin 400) (Fin 556))) 1)"
    by simp
  from t3 inv have c3: "selection_invariant (fst (selectObjectAt stR (Fin 400) (Fin 556)))"
    by blast
  from t3 have "calls (fst (selectObjectAt stR (Fin 400) (Fin 556))) =
      (if onChangeCallback stR then calls stR + 1 else calls stR)" by blast
  then have c4: "calls (fst (selectObjectAt stR (Fin 400) (Fin 556))) = 14" by simp
  from stR_reached rots inv both upper lower miss a1 a2 b1 b2 b3 b4 b5 c1 c2 c3 c4
  show ?thesis by blast
qed


end
